theory Spec2Isabelle
  imports Complex_Main "HOL-Library.AList" "HOL-Library.Log_Nat"
begin

section \<open>The orders route (backend/routes/orders.js)\<close>

text \<open>
  The module keeps three pieces of process-wide state: the map \<open>inMemoryOrders\<close>, the
  counter \<open>nextOrderNumericId\<close> and the set \<open>sseClients\<close>. Every route handler is
  modelled as a function from the state before the request to the reply and the state
  after it. Exceptions are values (\<open>Inl\<close>) and each \<open>try/catch\<close> of the source is a
  case distinction on them.
\<close>

subsection \<open>JavaScript numbers\<close>

text \<open>
  A JavaScript number is an IEEE 754 binary64 value: \<open>NaN\<close>, one of the two infinities,
  or a finite double, held here as the rational number it stands for. The sign of zero is
  not modelled: nothing computed in this module depends on it.

  \<open>fl x\<close> is the double nearest to the exact value \<open>x\<close>, a tie going to the even
  significand, and an infinity from \<open>2^1024 - 2^970\<close> on. The magnitude is scaled by
  \<open>2^1074\<close>, so that the smallest positive double is 1; \<open>ulp_shift\<close> is the number of low
  bits that do not fit into the 53 bits of a significand.
\<close>

datatype jsnum = NaN | PInf | NInf | Num rat

definition round_half_even :: "rat \<Rightarrow> int" where
  "round_half_even z =
     (let f = \<lfloor>z\<rfloor>; d = z - of_int f
      in if d < 1 / 2 then f else if 1 / 2 < d then f + 1 else if even f then f else f + 1)"

definition bias :: nat where
  "bias = 1074"

definition emax :: nat where
  "emax = 1024"

definition ulp_shift :: "rat \<Rightarrow> nat" where
  "ulp_shift a = nat (bitlen \<lfloor>a * 2 ^ bias\<rfloor>) - 53"

definition fl :: "rat \<Rightarrow> jsnum" where
  "fl x =
     (let a = \<bar>x\<bar>;
          k = ulp_shift a;
          m = round_half_even (a * 2 ^ bias / 2 ^ k);
          r = of_int m * 2 ^ k / 2 ^ bias
      in if 2 ^ emax \<le> r then (if x < 0 then NInf else PInf)
         else Num (if x < 0 then - r else r))"

text \<open>The literal \<open>0.1\<close>: the double nearest to a tenth, \<open>3602879701896397 / 2^55\<close>.\<close>

definition tenth :: rat where
  "tenth = 3602879701896397 / 36028797018963968"

text \<open>\<open>a + b\<close> and \<open>a * b\<close> on numbers.\<close>

fun js_add :: "jsnum \<Rightarrow> jsnum \<Rightarrow> jsnum" where
  "js_add (Num a) (Num b) = fl (a + b)"
| "js_add NaN _ = NaN"
| "js_add _ NaN = NaN"
| "js_add PInf NInf = NaN"
| "js_add NInf PInf = NaN"
| "js_add PInf _ = PInf"
| "js_add NInf _ = NInf"
| "js_add (Num a) PInf = PInf"
| "js_add (Num a) NInf = NInf"

fun js_mul :: "jsnum \<Rightarrow> jsnum \<Rightarrow> jsnum" where
  "js_mul (Num a) (Num b) = fl (a * b)"
| "js_mul NaN _ = NaN"
| "js_mul _ NaN = NaN"
| "js_mul PInf (Num b) = (if b = 0 then NaN else if 0 < b then PInf else NInf)"
| "js_mul NInf (Num b) = (if b = 0 then NaN else if 0 < b then NInf else PInf)"
| "js_mul (Num a) PInf = (if a = 0 then NaN else if 0 < a then PInf else NInf)"
| "js_mul (Num a) NInf = (if a = 0 then NaN else if 0 < a then NInf else PInf)"
| "js_mul PInf PInf = PInf"
| "js_mul PInf NInf = NInf"
| "js_mul NInf PInf = NInf"
| "js_mul NInf NInf = PInf"

text \<open>
  \<open>Math.round(x)\<close>: the integer nearest to \<open>x\<close>, a tie going to the larger one. The
  result is exact: a double of magnitude \<open>2^52\<close> or more is an integer already.
\<close>

fun Math_round :: "jsnum \<Rightarrow> jsnum" where
  "Math_round (Num a) = Num (of_int \<lfloor>a + 1 / 2\<rfloor>)"
| "Math_round x = x"

text \<open>\<open>Math.max(a, b)\<close>: \<open>NaN\<close> as soon as one argument is.\<close>

fun Math_max :: "jsnum \<Rightarrow> jsnum \<Rightarrow> jsnum" where
  "Math_max (Num a) (Num b) = Num (max a b)"
| "Math_max NaN _ = NaN"
| "Math_max _ NaN = NaN"
| "Math_max PInf _ = PInf"
| "Math_max _ PInf = PInf"
| "Math_max NInf b = b"
| "Math_max a NInf = a"

subsection \<open>JavaScript values read from a line item\<close>

text \<open>
  The values a field of a line item may hold are an absent field, \<open>null\<close>, a boolean or
  a number, as the JSON body parser delivers them; strings and nested objects in
  \<open>price\<close> and \<open>quantity\<close> are outside the model.
\<close>

datatype jsval = JUndefined | JNull | JBool bool | JNumber jsnum

fun truthy :: "jsval \<Rightarrow> bool" where
  "truthy JUndefined = False"
| "truthy JNull = False"
| "truthy (JBool b) = b"
| "truthy (JNumber NaN) = False"
| "truthy (JNumber (Num n)) = (n \<noteq> 0)"
| "truthy (JNumber _) = True"

text \<open>\<open>a || b\<close> on such values.\<close>

definition js_or :: "jsval \<Rightarrow> jsval \<Rightarrow> jsval" where
  "js_or a b = (if truthy a then a else b)"

text \<open>\<open>Number(v)\<close>.\<close>

fun Number :: "jsval \<Rightarrow> jsnum" where
  "Number JUndefined = NaN"
| "Number JNull = Num 0"
| "Number (JBool b) = Num (if b then 1 else 0)"
| "Number (JNumber x) = x"

datatype exn = TypeError | WriteError

text \<open>
  An element of the \<open>items\<close> array is \<open>null\<close> (reading a property of it throws), or any
  other value, of which only the properties \<open>price\<close> and \<open>quantity\<close> are read.
\<close>

datatype item = Nullish | Item jsval jsval

text \<open>
  The reducer \<open>(sum, it) => sum + Number(it.price) * Number(it.quantity || 1)\<close>, the
  accumulator \<open>sum\<close> written \<open>acc\<close>.
\<close>

fun reducer :: "jsnum \<Rightarrow> item \<Rightarrow> exn + jsnum" where
  "reducer acc Nullish = Inl TypeError"
| "reducer acc (Item price quantity) =
     Inr (js_add acc (js_mul (Number price) (Number (js_or quantity (JNumber (Num 1))))))"

text \<open>\<open>items.reduce(f, init)\<close>, stopping at the first exception.\<close>

fun reduce :: "item list \<Rightarrow> jsnum \<Rightarrow> exn + jsnum" where
  "reduce [] acc = Inr acc"
| "reduce (it # its) acc =
     (case reducer acc it of Inl e \<Rightarrow> Inl e | Inr acc' \<Rightarrow> reduce its acc')"

text \<open>The expression of the \<open>payoutAmount\<close> property of a new order.\<close>

definition payout :: "item list \<Rightarrow> exn + jsnum" where
  "payout its =
     (case reduce its (Num 0) of
        Inl e \<Rightarrow> Inl e
      | Inr s \<Rightarrow> Inr (Math_max (Num 30) (Math_round (js_mul s (Num tenth)))))"

subsection \<open>Order identifiers\<close>

definition digit_char :: "nat \<Rightarrow> char" where
  "digit_char d = ''0123456789'' ! d"

text \<open>The decimal rendering of the counter inside the template literal.\<close>

fun decimal :: "nat \<Rightarrow> string" where
  "decimal n =
     (if n < 10 then [digit_char n] else decimal (n div 10) @ [digit_char (n mod 10)])"

declare decimal.simps [simp del]

text \<open>\<open>generateOrderId\<close> is defined below, on the module state.\<close>

subsection \<open>Request data\<close>

text \<open>
  An optional text field of the request body or of the caller is \<open>None\<close> when absent
  (or \<open>null\<close>). \<open>a || b\<close> on such fields, and \<open>a || 'literal'\<close>:
\<close>

definition str_truthy :: "string option \<Rightarrow> bool" where
  "str_truthy a = (case a of None \<Rightarrow> False | Some v \<Rightarrow> v \<noteq> [])"

definition str_or :: "string option \<Rightarrow> string option \<Rightarrow> string option" where
  "str_or a b = (if str_truthy a then a else b)"

definition or_literal :: "string option \<Rightarrow> string \<Rightarrow> string" where
  "or_literal a d = (case a of None \<Rightarrow> d | Some v \<Rightarrow> if v \<noteq> [] then v else d)"

text \<open>
  \<open>req.user\<close>, set by the \<open>auth\<close> middleware (not part of this module): \<open>None\<close> when
  the request carries no user. \<open>req.user?.f\<close> is \<open>user_field f\<close>.
\<close>

record user =
  user__id :: "string option"
  user_id :: "string option"
  user_name :: "string option"
  user_phone :: "string option"

definition user_field :: "(user \<Rightarrow> string option) \<Rightarrow> user option \<Rightarrow> string option" where
  "user_field f u = (case u of None \<Rightarrow> None | Some v \<Rightarrow> f v)"

text \<open>A delivery address is a string or an object with optional \<open>street\<close> and \<open>city\<close>.\<close>

datatype address = AddrString string | AddrObject "string option" "string option"

fun filter_Boolean :: "string option list \<Rightarrow> string list" where
  "filter_Boolean [] = []"
| "filter_Boolean (None # vs) = filter_Boolean vs"
| "filter_Boolean (Some v # vs) = (if v \<noteq> [] then v # filter_Boolean vs else filter_Boolean vs)"

fun join :: "string \<Rightarrow> string list \<Rightarrow> string" where
  "join sep [] = []"
| "join sep [v] = v"
| "join sep (v # w # vs) = v @ sep @ join sep (w # vs)"

definition dropAddress_of :: "address option \<Rightarrow> string" where
  "dropAddress_of a =
     (case a of
        Some (AddrString v) \<Rightarrow> v
      | Some (AddrObject street city) \<Rightarrow> join '', '' (filter_Boolean [street, city])
      | None \<Rightarrow> join '', '' (filter_Boolean [None, None]))"

record create_body =
  body_items :: "item list option"
  body_deliveryAddress :: "address option"
  body_paymentMethod :: "string option"
  body_deliveryInstructions :: "string option"
  body_restaurantId :: "string option"
  body_customerName :: "string option"
  body_customerPhone :: "string option"
  body_restaurantName :: "string option"
  body_pickupAddress :: "string option"

text \<open>
  \<open>body_items\<close> is \<open>None\<close> when \<open>items\<close> is absent or not an array. The three
  validators of the create route, and the messages of those that fail, in order.
\<close>

definition items_isArray_min1 :: "item list option \<Rightarrow> bool" where
  "items_isArray_min1 v = (case v of None \<Rightarrow> False | Some its \<Rightarrow> 1 \<le> length its)"

definition address_notEmpty :: "address option \<Rightarrow> bool" where
  "address_notEmpty v =
     (case v of None \<Rightarrow> False | Some (AddrString a) \<Rightarrow> a \<noteq> [] | Some (AddrObject _ _) \<Rightarrow> True)"

definition validationResult_create :: "create_body \<Rightarrow> string list" where
  "validationResult_create b =
     (if items_isArray_min1 (body_items b) then [] else [''At least one item is required'']) @
     (if address_notEmpty (body_deliveryAddress b) then [] else [''Delivery address is required'']) @
     (if str_truthy (body_paymentMethod b) then [] else [''Payment method is required''])"

subsection \<open>Orders, replies and the module state\<close>

text \<open>
  The \<open>status\<close> of an order is whatever the update route was sent and let through: a
  string or an array of strings (\<open>NoStatus\<close> is the absent property of a request).
  Numbers, booleans, \<open>null\<close>, objects and arrays of other values are outside the model.
  \<open>values.includes(v)\<close> compares \<open>v\<close> with each string of \<open>values\<close>.
\<close>

datatype status_value = NoStatus | Str string | Arr "string list"

definition js_includes :: "string list \<Rightarrow> status_value \<Rightarrow> bool" where
  "js_includes values v \<longleftrightarrow> v \<in> set (map Str values)"

record driver_ref =
  driver_id :: "string option"
  driver_name :: string

text \<open>
  The order object. The property \<open>id\<close> is the field \<open>order_id\<close>; \<open>driver\<close> is \<open>None\<close>
  until the assign route adds the property.
\<close>

record order =
  order_id :: string
  userId :: "string option"
  restaurantId :: "string option"
  customerName :: string
  customerPhone :: string
  items :: "item list"
  deliveryAddress :: "address option"
  deliveryInstructions :: string
  paymentMethod :: "string option"
  createdAt :: string
  status :: status_value
  payoutAmount :: jsnum
  restaurantName :: string
  pickupAddress :: string
  dropAddress :: string
  paymentType :: string
  driver :: "driver_ref option"

datatype reply =
    Json200 order
  | Json200_list "order list"
  | Json201 order
  | Errors400 "string list"
  | Error400 string
  | Error404 string
  | Error500 string

text \<open>
  What is written to an event stream: the frame \<open>event: type, data: JSON of the payload\<close>.
  A client whose \<open>write\<close> throws is one with \<open>writable = False\<close>; \<open>written\<close> is what the
  client has received.
\<close>

datatype chunk = Event string order

record sse_client =
  writable :: bool
  written :: "chunk list"

text \<open>
  The map keeps insertion order and \<open>set\<close> on a present key keeps its place, as
  \<open>AList.update\<close> does; the set of clients is iterated in insertion order.
\<close>

record state =
  inMemoryOrders :: "(string \<times> order) list"
  nextOrderNumericId :: nat
  sseClients :: "sse_client list"

definition initial_state :: state where
  "initial_state = \<lparr>inMemoryOrders = [], nextOrderNumericId = 1010, sseClients = []\<rparr>"

definition generateOrderId :: "state \<Rightarrow> string \<times> state" where
  "generateOrderId s =
     (''ORD-'' @ decimal (nextOrderNumericId s),
      s\<lparr>nextOrderNumericId := nextOrderNumericId s + 1\<rparr>)"

subsection \<open>The event broadcast\<close>

definition res_write :: "chunk \<Rightarrow> sse_client \<Rightarrow> exn + sse_client" where
  "res_write d res =
     (if writable res then Inr (res\<lparr>written := written res @ [d]\<rparr>) else Inl WriteError)"

text \<open>\<open>try { res.write(data); } catch (_) {}\<close>: the exception is dropped.\<close>

definition try_write :: "chunk \<Rightarrow> sse_client \<Rightarrow> exn + sse_client" where
  "try_write d res = (case res_write d res of Inl _ \<Rightarrow> Inr res | Inr res' \<Rightarrow> Inr res')"

text \<open>The \<open>for ... of\<close> loop over the clients; an exception of the body would leave it.\<close>

fun broadcast_loop :: "chunk \<Rightarrow> sse_client list \<Rightarrow> exn + sse_client list" where
  "broadcast_loop d [] = Inr []"
| "broadcast_loop d (res # rest) =
     (case try_write d res of
        Inl e \<Rightarrow> Inl e
      | Inr res' \<Rightarrow>
          (case broadcast_loop d rest of
             Inl e \<Rightarrow> Inl e
           | Inr rest' \<Rightarrow> Inr (res' # rest')))"

definition broadcastOrderEvent :: "string \<Rightarrow> order \<Rightarrow> state \<Rightarrow> exn + state" where
  "broadcastOrderEvent type payload s =
     (case broadcast_loop (Event type payload) (sseClients s) of
        Inl e \<Rightarrow> Inl e
      | Inr cs \<Rightarrow> Inr (s\<lparr>sseClients := cs\<rparr>))"

subsection \<open>The route handlers\<close>

text \<open>
  Each handler takes the route parameter \<open>:id\<close> (written \<open>k\<close>), the caller \<open>req.user\<close> and
  the request body where it reads them, and the state. The \<open>catch\<close> of a handler answers
  500 and keeps what the body had already changed.

  \<open>GET /\<close> and \<open>GET /:id\<close>.
\<close>

definition get_orders :: "state \<Rightarrow> reply \<times> state" where
  "get_orders s = (Json200_list (map snd (inMemoryOrders s)), s)"

definition get_order :: "string \<Rightarrow> state \<Rightarrow> reply \<times> state" where
  "get_order k s =
     (case map_of (inMemoryOrders s) k of
        None \<Rightarrow> (Error404 ''Order not found'', s)
      | Some order \<Rightarrow> (Json200 order, s))"

text \<open>
  \<open>POST /\<close>. The clock reading \<open>new Date().toISOString()\<close> is the parameter \<open>now\<close>.
  The properties of the new order are evaluated in the order written, so the counter has
  advanced when \<open>items.reduce\<close> throws.
\<close>

definition post_orders :: "user option \<Rightarrow> string \<Rightarrow> create_body \<Rightarrow> state \<Rightarrow> reply \<times> state" where
  "post_orders u now b s =
     (let errors = validationResult_create b in
      if errors \<noteq> [] then (Errors400 errors, s)
      else
        let (oid, s1) = generateOrderId s in
        (case body_items b of
           None \<Rightarrow> (Error500 ''Server error'', s1)
         | Some its \<Rightarrow>
             (case payout its of
                Inl e \<Rightarrow> (Error500 ''Server error'', s1)
              | Inr p \<Rightarrow>
                  let newOrder =
                        \<lparr>order_id = oid,
                         userId = str_or (str_or (user_field user__id u) (user_field user_id u)) None,
                         restaurantId = str_or (body_restaurantId b) None,
                         customerName =
                           or_literal (str_or (body_customerName b) (user_field user_name u)) ''Customer'',
                         customerPhone =
                           or_literal (str_or (body_customerPhone b) (user_field user_phone u)) ''N/A'',
                         items = its,
                         deliveryAddress = body_deliveryAddress b,
                         deliveryInstructions = or_literal (body_deliveryInstructions b) [],
                         paymentMethod = body_paymentMethod b,
                         createdAt = now,
                         status = Str ''pending'',
                         payoutAmount = p,
                         restaurantName = or_literal (body_restaurantName b) ''Restaurant'',
                         pickupAddress = or_literal (body_pickupAddress b) ''Restaurant Address'',
                         dropAddress = dropAddress_of (body_deliveryAddress b),
                         paymentType =
                           (if body_paymentMethod b = Some ''cash'' then ''COD'' else ''Paid Online''),
                         driver = None\<rparr>;
                      s2 = s1\<lparr>inMemoryOrders :=
                                AList.update (order_id newOrder) newOrder (inMemoryOrders s1)\<rparr>
                  in (case broadcastOrderEvent ''order_created'' newOrder s2 of
                        Inl e \<Rightarrow> (Error500 ''Server error'', s2)
                      | Inr s3 \<Rightarrow> (Json201 newOrder, s3)))))"

text \<open>
  The three status routes change the order object in place and then store it again under
  its own \<open>id\<close>: \<open>order.f = v; inMemoryOrders.set(order.id, order)\<close>. With orders as
  values, the order held under \<open>k\<close> is replaced, and so is the one under \<open>order.id\<close>.
\<close>

definition set_mutated :: "string \<Rightarrow> order \<Rightarrow> state \<Rightarrow> state" where
  "set_mutated k order' s =
     s\<lparr>inMemoryOrders :=
         AList.update (order_id order') order' (AList.update k order' (inMemoryOrders s))\<rparr>"

text \<open>
  \<open>PUT /:id/status\<close>. The validator \<open>body('status').isIn(values)\<close> turns the value into
  a string and looks it up in \<open>values\<close>; an absent value is validated as the empty string,
  and of an array every element is validated, so that an array passes when each of its
  elements does.
\<close>

definition isIn :: "string list \<Rightarrow> status_value \<Rightarrow> bool" where
  "isIn values v =
     (case v of
        NoStatus \<Rightarrow> [] \<in> set values
      | Str a \<Rightarrow> a \<in> set values
      | Arr as \<Rightarrow> list_all (\<lambda>a. a \<in> set values) as)"

definition status_isIn :: "status_value \<Rightarrow> bool" where
  "status_isIn v \<longleftrightarrow>
     isIn [''pending'', ''confirmed'', ''preparing'', ''out_for_delivery'', ''delivered'',
           ''cancelled''] v"

definition put_order_status :: "string \<Rightarrow> status_value \<Rightarrow> state \<Rightarrow> reply \<times> state" where
  "put_order_status k body_status s =
     (if \<not> status_isIn body_status then (Errors400 [''Invalid order status''], s)
      else
        (case map_of (inMemoryOrders s) k of
           None \<Rightarrow> (Error404 ''Order not found'', s)
         | Some order \<Rightarrow>
             let order' = order\<lparr>status := body_status\<rparr>;
                 s1 = set_mutated k order' s
             in (case broadcastOrderEvent ''order_updated'' order' s1 of
                   Inl e \<Rightarrow> (Error500 ''Server error'', s1)
                 | Inr s2 \<Rightarrow> (Json200 order', s2))))"

text \<open>\<open>GET /available/list\<close>.\<close>

definition get_available_list :: "state \<Rightarrow> reply \<times> state" where
  "get_available_list s =
     (Json200_list
        (filter (\<lambda>x. js_includes [''pending'', ''confirmed'', ''preparing''] (status x))
           (map snd (inMemoryOrders s))), s)"

text \<open>\<open>POST /:id/assign\<close>.\<close>

definition post_assign :: "user option \<Rightarrow> string \<Rightarrow> state \<Rightarrow> reply \<times> state" where
  "post_assign u k s =
     (case map_of (inMemoryOrders s) k of
        None \<Rightarrow> (Error404 ''Order not found'', s)
      | Some order \<Rightarrow>
          if \<not> js_includes [''pending'', ''confirmed'', ''preparing''] (status order)
          then (Error400 ''Order is not available for assignment'', s)
          else
            let order' = order
                  \<lparr>status := Str ''out_for_delivery'',
                   driver := Some \<lparr>driver_id = str_or (user_field user__id u) (user_field user_id u),
                                   driver_name = or_literal (user_field user_name u) ''Driver''\<rparr>\<rparr>;
                s1 = set_mutated k order' s
            in (case broadcastOrderEvent ''order_assigned'' order' s1 of
                  Inl e \<Rightarrow> (Error500 ''Server error'', s1)
                | Inr s2 \<Rightarrow> (Json200 order', s2)))"

text \<open>\<open>POST /:id/accept-restaurant\<close>.\<close>

definition post_accept_restaurant :: "string \<Rightarrow> state \<Rightarrow> reply \<times> state" where
  "post_accept_restaurant k s =
     (case map_of (inMemoryOrders s) k of
        None \<Rightarrow> (Error404 ''Order not found'', s)
      | Some order \<Rightarrow>
          if \<not> js_includes [''pending''] (status order)
          then (Error400 ''Order cannot be accepted'', s)
          else
            let order' = order\<lparr>status := Str ''confirmed''\<rparr>;
                s1 = set_mutated k order' s
            in (case broadcastOrderEvent ''order_confirmed'' order' s1 of
                  Inl e \<Rightarrow> (Error500 ''Server error'', s1)
                | Inr s2 \<Rightarrow> (Json200 order', s2)))"

subsection \<open>Sequences of requests\<close>

datatype request =
    GetOrders
  | PostOrders "user option" string create_body
  | GetOrder string
  | PutOrderStatus string status_value
  | GetAvailableList
  | PostAssign "user option" string
  | PostAcceptRestaurant string

fun handle :: "request \<Rightarrow> state \<Rightarrow> reply \<times> state" where
  "handle GetOrders s = get_orders s"
| "handle (PostOrders u now b) s = post_orders u now b s"
| "handle (GetOrder k) s = get_order k s"
| "handle (PutOrderStatus k v) s = put_order_status k v s"
| "handle GetAvailableList s = get_available_list s"
| "handle (PostAssign u k) s = post_assign u k s"
| "handle (PostAcceptRestaurant k) s = post_accept_restaurant k s"

text \<open>The server handles one request after the other; \<open>run\<close> returns the replies in order.\<close>

fun run :: "request list \<Rightarrow> state \<Rightarrow> reply list \<times> state" where
  "run [] s = ([], s)"
| "run (r # rs) s =
     (let (a, s1) = handle r s; (as, s2) = run rs s1 in (a # as, s2))"

subsection \<open>Notions used in the statements\<close>

text \<open>What a client holds after \<open>res.write(d)\<close> was tried on it.\<close>

definition delivered :: "chunk \<Rightarrow> sse_client \<Rightarrow> sse_client" where
  "delivered d res = (if writable res then res\<lparr>written := written res @ [d]\<rparr> else res)"

text \<open>
  The lifecycle \<open>pending, confirmed, preparing, out_for_delivery, delivered\<close> by position;
  \<open>cancelled\<close> and any other string have none.
\<close>

definition lifecycle_rank :: "status_value \<Rightarrow> nat option" where
  "lifecycle_rank v =
     (if v = Str ''pending'' then Some 0
      else if v = Str ''confirmed'' then Some 1
      else if v = Str ''preparing'' then Some 2
      else if v = Str ''out_for_delivery'' then Some 3
      else if v = Str ''delivered'' then Some 4
      else None)"

text \<open>
  A change of status from \<open>old\<close> to \<open>new\<close> does not regress: the status stays, or moves to
  \<open>cancelled\<close>, or moves to a later position of the lifecycle.
\<close>

definition forward :: "status_value \<Rightarrow> status_value \<Rightarrow> bool" where
  "forward old new \<longleftrightarrow>
     new = old \<or> new = Str ''cancelled'' \<or>
     (case (lifecycle_rank old, lifecycle_rank new) of
        (Some a, Some b) \<Rightarrow> a < b
      | _ \<Rightarrow> False)"

text \<open>Every stored order sits under its own \<open>id\<close>, as the create route stores it.\<close>

definition wf_store :: "state \<Rightarrow> bool" where
  "wf_store s \<longleftrightarrow> (\<forall>(k, x) \<in> set (inMemoryOrders s). order_id x = k)"

text \<open>The requests to the three routes that change a stored order, and the two guarded ones.\<close>

fun mutating :: "request \<Rightarrow> bool" where
  "mutating (PutOrderStatus k v) = True"
| "mutating (PostAssign u k) = True"
| "mutating (PostAcceptRestaurant k) = True"
| "mutating _ = False"

fun guarded :: "request \<Rightarrow> bool" where
  "guarded (PostAssign u k) = True"
| "guarded (PostAcceptRestaurant k) = True"
| "guarded _ = False"

fun is_assign :: "request \<Rightarrow> bool" where
  "is_assign (PostAssign u k) = True"
| "is_assign _ = False"

text \<open>The order a reply carries, and the identifiers of the orders created by a run.\<close>

fun reply_order :: "reply \<Rightarrow> order option" where
  "reply_order (Json200 x) = Some x"
| "reply_order (Json201 x) = Some x"
| "reply_order _ = None"

fun created_ids :: "reply list \<Rightarrow> string list" where
  "created_ids [] = []"
| "created_ids (Json201 x # as) = order_id x # created_ids as"
| "created_ids (_ # as) = created_ids as"

text \<open>
  The payout as the specification words it, on items given as pairs of unit price and
  quantity: the larger of 30 and a tenth of the total, rounded, in exact arithmetic.
\<close>

definition spec_payoutAmount :: "(rat \<times> rat) list \<Rightarrow> int" where
  "spec_payoutAmount pq = max 30 (round (0.1 * real_of_rat (\<Sum>(p, q)\<leftarrow>pq. p * q)))"

text \<open>An item whose price and quantity are finite numbers.\<close>

definition numeric_item :: "rat \<times> rat \<Rightarrow> item" where
  "numeric_item pq = Item (JNumber (Num (fst pq))) (JNumber (Num (snd pq)))"

text \<open>The order after the assign route has marked it and recorded the caller.\<close>

definition assigned :: "user option \<Rightarrow> order \<Rightarrow> order" where
  "assigned u x =
     x\<lparr>status := Str ''out_for_delivery'',
       driver := Some \<lparr>driver_id = str_or (user_field user__id u) (user_field user_id u),
                       driver_name = or_literal (user_field user_name u) ''Driver''\<rparr>\<rparr>"

subsection \<open>Sample data\<close>

definition demo_body :: create_body where
  "demo_body =
     \<lparr>body_items = Some [Item (JNumber (Num 500)) (JNumber (Num 2))],
      body_deliveryAddress = Some (AddrObject (Some ''12 Hill Rd'') (Some ''Pune'')),
      body_paymentMethod = Some ''cash'',
      body_deliveryInstructions = None,
      body_restaurantId = None,
      body_customerName = None,
      body_customerPhone = None,
      body_restaurantName = None,
      body_pickupAddress = None\<rparr>"

definition demo_user :: user where
  "demo_user =
     \<lparr>user__id = Some ''u7'', user_id = None, user_name = Some ''Asha'', user_phone = None\<rparr>"

definition demo_order :: order where
  "demo_order =
     \<lparr>order_id = ''ORD-1010'', userId = None, restaurantId = None,
      customerName = ''Customer'', customerPhone = ''N/A'',
      items = [Item (JNumber (Num 500)) (JNumber (Num 2))],
      deliveryAddress = Some (AddrObject (Some ''12 Hill Rd'') (Some ''Pune'')),
      deliveryInstructions = [], paymentMethod = Some ''cash'',
      createdAt = ''t0'', status = Str ''pending'', payoutAmount = Num 100,
      restaurantName = ''Restaurant'', pickupAddress = ''Restaurant Address'',
      dropAddress = ''12 Hill Rd, Pune'', paymentType = ''COD'', driver = None\<rparr>"

text \<open>
  A state with one pending order and one delivered order, and two event clients, the
  first of which fails on \<open>write\<close>.
\<close>

definition demo_state :: state where
  "demo_state =
     \<lparr>inMemoryOrders =
        [(''ORD-1010'', demo_order),
         (''ORD-1011'', demo_order\<lparr>order_id := ''ORD-1011'', status := Str ''delivered''\<rparr>)],
      nextOrderNumericId = 1012,
      sseClients = [\<lparr>writable = False, written = []\<rparr>, \<lparr>writable = True, written = []\<rparr>]\<rparr>"

section \<open>Properties\<close>

subsection \<open>Rounding to a double\<close>

lemma round_half_even_cases:
  "round_half_even z = \<lfloor>z\<rfloor> \<or> round_half_even z = \<lfloor>z\<rfloor> + 1"
  by (simp add: round_half_even_def Let_def)

lemma round_half_even_int: "round_half_even (of_int n) = n"
  by (simp add: round_half_even_def)

lemma round_half_even_lower:
  assumes "of_int n \<le> z" shows "n \<le> round_half_even z"
proof -
  from assms have "n \<le> \<lfloor>z\<rfloor>" by (simp add: le_floor_iff)
  with round_half_even_cases [of z] show ?thesis by linarith
qed

lemma round_half_even_err: "\<bar>of_int (round_half_even z) - z\<bar> \<le> 1 / 2"
proof -
  have a: "of_int \<lfloor>z\<rfloor> \<le> z" and b: "z < of_int \<lfloor>z\<rfloor> + 1" by linarith+
  show ?thesis
    unfolding round_half_even_def Let_def using a b by (auto simp: abs_le_iff) 
qed

lemma round_half_even_nearest:
  assumes "of_int n - 1 / 2 < z" and "z < of_int n + 1 / 2"
  shows "round_half_even z = n"
proof (cases "of_int n \<le> z")
  case True
  with assms(2) have "\<lfloor>z\<rfloor> = n" by (intro floor_unique) simp_all
  with assms(2) show ?thesis by (simp add: round_half_even_def Let_def)
next
  case False
  with assms(1) have f: "\<lfloor>z\<rfloor> = n - 1" by (intro floor_unique) simp_all
  have "1 / 2 < z - rat_of_int (n - 1)" using assms(1) by simp
  then show ?thesis unfolding round_half_even_def Let_def f by simp
qed

lemma ulp_shift_le:
  assumes "0 \<le> a" and "a < 2 ^ e"
  shows "ulp_shift a + 53 \<le> max 53 (e + bias)"
proof -
  have "a * 2 ^ bias < 2 ^ e * 2 ^ bias" using assms by simp
  then have "a * 2 ^ bias < of_int (2 ^ (e + bias))" by (simp add: power_add)
  then have "\<lfloor>a * 2 ^ bias\<rfloor> < 2 ^ (e + bias)"
    by (simp only: floor_less_iff)
  then have "\<lfloor>a * 2 ^ bias\<rfloor> < 2 ^ nat (int (e + bias))" by (simp only: nat_int)
  then have "bitlen \<lfloor>a * 2 ^ bias\<rfloor> \<le> int (e + bias)"
    by (simp only: bitlen_le_iff_power) simp
  then show ?thesis unfolding ulp_shift_def by linarith
qed


lemma fl_nonneg_unfold:
  assumes "0 \<le> x" and "k = ulp_shift x" and "k + d = bias"
    and "m = round_half_even (x * 2 ^ d)" and "rat_of_int m / 2 ^ d < 2 ^ emax"
  shows "fl x = Num (of_int m / 2 ^ d)"
proof -
  have b: "(2::rat) ^ bias = 2 ^ k * 2 ^ d" using assms(3) by (simp add: power_add [symmetric])
  have 1: "\<bar>x\<bar> * 2 ^ bias / 2 ^ ulp_shift \<bar>x\<bar> = x * 2 ^ d"
    using assms(1,2) by (simp add: b)
  have 2: "rat_of_int m * 2 ^ k / 2 ^ bias = of_int m / 2 ^ d" by (simp add: b)
  show ?thesis
    unfolding fl_def Let_def 1 using assms(1,2,4,5) 2 by (simp add: not_le)
qed

lemma fl_exact:
  assumes "0 \<le> M" and "M < 2 ^ 53" and "j \<le> bias"
    and "rat_of_int M * 2 ^ j / 2 ^ bias < 2 ^ emax"
  shows "fl (of_int M * 2 ^ j / 2 ^ bias) = Num (of_int M * 2 ^ j / 2 ^ bias)"
proof -
  let ?x = "rat_of_int M * 2 ^ j / 2 ^ bias"
  have x0: "0 \<le> ?x" using assms(1) by simp
  have fl_x: "\<lfloor>?x * 2 ^ bias\<rfloor> = M * 2 ^ j"
  proof -
    have "?x * 2 ^ bias = of_int (M * 2 ^ j)" by simp
    then show ?thesis by (simp only: floor_of_int)
  qed
  have kj: "ulp_shift ?x \<le> j"
  proof (cases "M = 0")
    case True
    then show ?thesis by (simp add: ulp_shift_def)
  next
    case False
    with assms(1) have "0 < M" by simp
    then have "bitlen (M * 2 ^ j) = bitlen M + int j" by simp
    moreover have "bitlen M \<le> 53" using assms(2) by (simp add: bitlen_le_iff_power)
    ultimately show ?thesis unfolding ulp_shift_def fl_x by linarith
  qed
  define k where "k = ulp_shift ?x"
  define d where "d = bias - k"
  have kd: "k + d = bias" using kj assms(3) by (simp add: k_def d_def)
  have jd: "j + d = bias + (j - k)" using kj kd by (simp add: k_def)
  have "?x * 2 ^ d = rat_of_int M * (2 ^ j * 2 ^ d) / 2 ^ bias" by simp
  also have "\<dots> = rat_of_int M * 2 ^ (bias + (j - k)) / 2 ^ bias"
    by (simp only: power_add [symmetric] jd)
  also have "\<dots> = of_int (M * 2 ^ (j - k))" by (simp add: power_add)
  finally have xd: "?x * 2 ^ d = of_int (M * 2 ^ (j - k))" .
  have m: "M * 2 ^ (j - k) = round_half_even (?x * 2 ^ d)"
    by (simp only: xd round_half_even_int)
  have unscale: "rat_of_int (M * 2 ^ (j - k)) / 2 ^ d = ?x"
    using xd by (metis nonzero_mult_div_cancel_right power_eq_0_iff zero_neq_numeral)
  from fl_nonneg_unfold [OF x0 k_def kd m] assms(4) show ?thesis
    by (simp only: unscale)
qed

lemma fl_int_exact:
  assumes "0 \<le> n" and "n < 2 ^ 53"
  shows "fl (of_int n) = Num (of_int n)"
proof -
  have "rat_of_int n < 2 ^ 53" using assms(2) by (metis of_int_less_numeral_power_cancel_iff)
  also have "(2::rat) ^ 53 \<le> 2 ^ emax" by (rule power_increasing) (simp_all add: emax_def)
  finally have "rat_of_int n * 2 ^ bias / 2 ^ bias < 2 ^ emax" by simp
  from fl_exact [OF assms le_refl this] show ?thesis by simp
qed


lemma tenth_bounds: "1 / 10 \<le> tenth" "tenth < 1 / 8"
  by (simp_all add: tenth_def)

lemma fl_tenth:
  assumes "0 \<le> s" and "s \<le> 2 ^ 50"
  shows "\<exists>f. fl (of_int s * tenth) = Num f \<and> \<lfloor>f + 1 / 2\<rfloor> = (s + 5) div 10"
proof -
  define y where "y = rat_of_int s * tenth"
  define t where "t = (s + 5) div 10"
  define k where "k = ulp_shift y"
  define d where "d = bias - k"
  define m where "m = round_half_even (y * 2 ^ d)"
  define f where "f = rat_of_int m / 2 ^ d"
  have s_rat: "0 \<le> rat_of_int s" "rat_of_int s \<le> 2 ^ 50"
    using assms by (simp_all add: of_int_le_numeral_power_cancel_iff)
  have y0: "0 \<le> y" using s_rat(1) tenth_bounds(1) by (simp add: y_def)
  have "y \<le> 2 ^ 50 * tenth" unfolding y_def using s_rat(2) tenth_bounds(1)
    by (intro mult_right_mono) simp_all
  also have "\<dots> < 2 ^ 47" using tenth_bounds(2) by simp
  finally have y47: "y < 2 ^ 47" .
  from ulp_shift_le [OF y0 y47] have k6: "k + 6 \<le> bias" by (simp add: k_def bias_def)
  then have kd: "k + d = bias" and d6: "6 \<le> d" by (simp_all add: d_def)
  have p64: "(64::rat) \<le> 2 ^ d"
  proof -
    have "(2::rat) ^ 6 \<le> 2 ^ d" using d6 by (intro power_increasing) simp_all
    then show ?thesis by simp
  qed
  have pd: "(0::rat) < 2 ^ d" by simp
  \<comment> \<open>the rounded value is within half a unit in the last place\<close>
  have "\<bar>rat_of_int m - y * 2 ^ d\<bar> \<le> 1 / 2" unfolding m_def by (rule round_half_even_err)
  then have "\<bar>rat_of_int m - y * 2 ^ d\<bar> / 2 ^ d \<le> (1 / 2) / 2 ^ d"
    using pd by (simp only: divide_le_cancel) simp
  moreover have "\<bar>rat_of_int m - y * 2 ^ d\<bar> / 2 ^ d = \<bar>f - y\<bar>"
  proof -
    have "f - y = (rat_of_int m - y * 2 ^ d) / 2 ^ d" by (simp add: f_def field_simps)
    then show ?thesis by simp
  qed
  moreover have "(1 / 2) / (2::rat) ^ d \<le> 1 / 128"
    using p64 by (simp add: field_simps)
  ultimately have err: "\<bar>f - y\<bar> \<le> 1 / 128" by linarith
  \<comment> \<open>where the exact product lies\<close>
  have t_lo: "10 * t - 5 \<le> s" and t_hi: "s \<le> 10 * t + 4" unfolding t_def by presburger+
  have ts: "rat_of_int t * 10 - 5 \<le> rat_of_int s" "rat_of_int s \<le> rat_of_int t * 10 + 4"
  proof -
    have "rat_of_int (10 * t - 5) \<le> rat_of_int s" using t_lo by (simp only: of_int_le_iff)
    then show "rat_of_int t * 10 - 5 \<le> rat_of_int s" by simp
    have "rat_of_int s \<le> rat_of_int (10 * t + 4)" using t_hi by (simp only: of_int_le_iff)
    then show "rat_of_int s \<le> rat_of_int t * 10 + 4" by simp
  qed
  have y_ge: "rat_of_int s / 10 \<le> y"
    unfolding y_def using s_rat(1) tenth_bounds(1) mult_left_mono [of "1 / 10" tenth "rat_of_int s"]
    by simp
  have y_le: "y \<le> rat_of_int s / 10 + 1 / 128"
  proof -
    have "y = rat_of_int s / 10 + rat_of_int s / (5 * 2 ^ 55)"
      by (simp add: y_def tenth_def field_simps)
    moreover have "rat_of_int s / (5 * 2 ^ 55) \<le> 2 ^ 50 / (5 * 2 ^ 55)"
      using s_rat(2) by (intro divide_right_mono) simp_all
    ultimately show ?thesis by simp
  qed
  \<comment> \<open>the half below \<open>t\<close> is a multiple of the unit, so rounding cannot fall below it\<close>
  have lower: "rat_of_int t - 1 / 2 \<le> f"
  proof -
    obtain c where c: "d = Suc c" using d6 by (cases d) simp_all
    have "rat_of_int ((2 * t - 1) * 2 ^ c) = (rat_of_int t - 1 / 2) * 2 ^ d"
      by (simp add: c field_simps)
    also have "\<dots> \<le> y * 2 ^ d" using ts(1) y_ge pd by (intro mult_right_mono) simp_all
    finally have "(2 * t - 1) * 2 ^ c \<le> m" unfolding m_def by (rule round_half_even_lower)
    then have "rat_of_int ((2 * t - 1) * 2 ^ c) \<le> rat_of_int m" by (simp only: of_int_le_iff)
    then have "(rat_of_int t - 1 / 2) * 2 ^ d \<le> rat_of_int m" by (simp add: c field_simps)
    then show ?thesis unfolding f_def using pd by (simp add: pos_le_divide_eq)
  qed
  have upper: "f < rat_of_int t + 1 / 2" using err y_le ts(2) by linarith
  have fl_f: "\<lfloor>f + 1 / 2\<rfloor> = t"
  proof -
    have "rat_of_int t \<le> f + 1 / 2" "f + 1 / 2 < rat_of_int t + 1" using lower upper by simp_all
    then show ?thesis by (simp add: floor_unique)
  qed
  have "f < 2 ^ 47 + 1" using err y47 by linarith
  also have "(2::rat) ^ 47 + 1 \<le> 2 ^ 48" by simp
  also have "(2::rat) ^ 48 \<le> 2 ^ emax" by (rule power_increasing) (simp_all add: emax_def)
  finally have "rat_of_int m / 2 ^ d < 2 ^ emax" by (simp add: f_def)
  from fl_nonneg_unfold [OF y0 k_def kd m_def this] fl_f
  show ?thesis unfolding y_def t_def f_def by blast
qed

lemma ulp_shift_binade:
  assumes "2 ^ e \<le> a" and "a < 2 ^ Suc e"
  shows "ulp_shift a + 52 = e + bias"
proof -
  have "rat_of_int (2 ^ (e + bias)) \<le> a * 2 ^ bias" using assms(1) by (simp add: power_add)
  then have lo: "2 ^ (e + bias) \<le> \<lfloor>a * 2 ^ bias\<rfloor>" by (simp only: le_floor_iff)
  have "a * 2 ^ bias < rat_of_int (2 ^ (Suc e + bias))"
    using assms(2) by (simp add: power_add)
  then have hi: "\<lfloor>a * 2 ^ bias\<rfloor> < 2 ^ (Suc e + bias)" by (simp only: floor_less_iff)
  have "bitlen \<lfloor>a * 2 ^ bias\<rfloor> = int (Suc e + bias)"
  proof (rule antisym)
    from hi have "\<lfloor>a * 2 ^ bias\<rfloor> < 2 ^ nat (int (Suc e + bias))" by (simp only: nat_int)
    then show "bitlen \<lfloor>a * 2 ^ bias\<rfloor> \<le> int (Suc e + bias)"
      by (simp only: bitlen_le_iff_power) simp
    have "nat (int (Suc e + bias)) - 1 = e + bias" by simp
    with lo have "2 ^ (nat (int (Suc e + bias)) - 1) \<le> \<lfloor>a * 2 ^ bias\<rfloor>"
      by (simp only:)
    then show "int (Suc e + bias) \<le> bitlen \<lfloor>a * 2 ^ bias\<rfloor>"
      by (simp only: bitlen_ge_iff_power) simp
  qed
  then show ?thesis unfolding ulp_shift_def by (simp add: bias_def)
qed

text \<open>A product that is not exact: the double nearest to it lies half a unit above.\<close>

lemma fl_example: "fl (6756222274808644 * tenth) = Num (1351244454961729 / 2)"
proof -
  let ?y = "6756222274808644 * tenth"
  have y0: "0 \<le> ?y" by (simp add: tenth_def)
  have "2 ^ 49 \<le> ?y" "?y < 2 ^ Suc 49" by (simp_all add: tenth_def)
  from ulp_shift_binade [OF this] have k: "ulp_shift ?y + 3 = bias" by simp
  have "rat_of_int 5404977819846916 - 1 / 2 < ?y * 2 ^ 3"
    "?y * 2 ^ 3 < rat_of_int 5404977819846916 + 1 / 2" by (simp_all add: tenth_def)
  from round_half_even_nearest [OF this]
  have m: "5404977819846916 = round_half_even (?y * 2 ^ 3)" by simp
  have "rat_of_int 5404977819846916 / 2 ^ 3 < 2 ^ 50" by simp
  also have "(2::rat) ^ 50 \<le> 2 ^ emax" by (rule power_increasing) (simp_all add: emax_def)
  finally have b: "rat_of_int 5404977819846916 / 2 ^ 3 < 2 ^ emax" .
  from fl_nonneg_unfold [OF y0 refl k m b] show ?thesis by simp
qed

subsection \<open>The broadcast never throws\<close>

lemma try_write_delivered: "try_write d res = Inr (delivered d res)"
  by (simp add: try_write_def res_write_def delivered_def)

lemma broadcast_loop_delivered: "broadcast_loop d cs = Inr (map (delivered d) cs)"
  by (induction cs) (simp_all add: try_write_delivered)

lemma broadcastOrderEvent_delivered:
  "broadcastOrderEvent t p s =
     Inr (s\<lparr>sseClients := map (delivered (Event t p)) (sseClients s)\<rparr>)"
  by (simp add: broadcastOrderEvent_def broadcast_loop_delivered)

subsection \<open>What each status route returns\<close>

lemma map_of_set_mutated: "map_of (inMemoryOrders (set_mutated k x s)) k = Some x"
  by (simp add: set_mutated_def update_conv')

lemma sseClients_set_mutated: "sseClients (set_mutated k x s) = sseClients s"
  by (simp add: set_mutated_def)

lemma nextOrderNumericId_set_mutated:
  "nextOrderNumericId (set_mutated k x s) = nextOrderNumericId s"
  by (simp add: set_mutated_def)

lemma post_accept_restaurant_pending:
  assumes "map_of (inMemoryOrders s) k = Some x" and "status x = Str ''pending''"
  shows "post_accept_restaurant k s =
     (Json200 (x\<lparr>status := Str ''confirmed''\<rparr>),
      (set_mutated k (x\<lparr>status := Str ''confirmed''\<rparr>) s)
        \<lparr>sseClients :=
           map (delivered (Event ''order_confirmed'' (x\<lparr>status := Str ''confirmed''\<rparr>)))
             (sseClients s)\<rparr>)"
  using assms
  by (simp add: post_accept_restaurant_def js_includes_def broadcastOrderEvent_delivered
      sseClients_set_mutated Let_def)

lemma post_accept_restaurant_refused:
  assumes "map_of (inMemoryOrders s) k = Some x" and "status x \<noteq> Str ''pending''"
  shows "post_accept_restaurant k s = (Error400 ''Order cannot be accepted'', s)"
  using assms by (simp add: post_accept_restaurant_def js_includes_def)

lemma post_accept_restaurant_absent:
  assumes "map_of (inMemoryOrders s) k = None"
  shows "post_accept_restaurant k s = (Error404 ''Order not found'', s)"
  using assms by (simp add: post_accept_restaurant_def js_includes_def)

lemma post_assign_available:
  assumes "map_of (inMemoryOrders s) k = Some x"
    and "status x \<in> {Str ''pending'', Str ''confirmed'', Str ''preparing''}"
  shows "post_assign u k s =
     (Json200 (assigned u x),
      (set_mutated k (assigned u x) s)
        \<lparr>sseClients := map (delivered (Event ''order_assigned'' (assigned u x))) (sseClients s)\<rparr>)"
  using assms
  by (simp add: post_assign_def js_includes_def broadcastOrderEvent_delivered
      sseClients_set_mutated assigned_def Let_def)

lemma post_assign_refused:
  assumes "map_of (inMemoryOrders s) k = Some x"
    and "status x \<notin> {Str ''pending'', Str ''confirmed'', Str ''preparing''}"
  shows "post_assign u k s = (Error400 ''Order is not available for assignment'', s)"
  using assms by (simp add: post_assign_def js_includes_def)

lemma post_assign_absent:
  assumes "map_of (inMemoryOrders s) k = None"
  shows "post_assign u k s = (Error404 ''Order not found'', s)"
  using assms by (simp add: post_assign_def js_includes_def)

lemma put_order_status_present:
  assumes "map_of (inMemoryOrders s) k = Some x" and "status_isIn v"
  shows "put_order_status k v s =
     (Json200 (x\<lparr>status := v\<rparr>),
      (set_mutated k (x\<lparr>status := v\<rparr>) s)
        \<lparr>sseClients := map (delivered (Event ''order_updated'' (x\<lparr>status := v\<rparr>))) (sseClients s)\<rparr>)"
  using assms
  by (simp add: put_order_status_def broadcastOrderEvent_delivered sseClients_set_mutated
      Let_def)

lemma put_order_status_absent:
  assumes "map_of (inMemoryOrders s) k = None" and "status_isIn v"
  shows "put_order_status k v s = (Error404 ''Order not found'', s)"
  using assms by (simp add: put_order_status_def)

lemma put_order_status_invalid:
  assumes "\<not> status_isIn v"
  shows "put_order_status k v s = (Errors400 [''Invalid order status''], s)"
  using assms by (simp add: put_order_status_def)

subsection \<open>Creating an order\<close>

lemma reduce_no_Nullish:
  "Nullish \<notin> set its \<Longrightarrow> \<exists>t. reduce its acc = Inr t"
proof (induction its arbitrary: acc)
  case Nil
  show ?case by simp
next
  case (Cons it its)
  from Cons.prems have "it \<noteq> Nullish" and rest: "Nullish \<notin> set its" by auto
  then obtain p q where "it = Item p q" by (cases it) auto
  with Cons.IH [OF rest] show ?case by simp
qed

lemma payout_no_Nullish: "Nullish \<notin> set its \<Longrightarrow> \<exists>p. payout its = Inr p"
  using reduce_no_Nullish [of its "Num 0"] by (auto simp: payout_def)

lemma validationResult_create_empty:
  "validationResult_create b = [] \<longleftrightarrow>
     items_isArray_min1 (body_items b) \<and> address_notEmpty (body_deliveryAddress b)
     \<and> str_truthy (body_paymentMethod b)"
  by (simp add: validationResult_create_def)

text \<open>The order the create route builds from a request, an identifier and a payout.\<close>

lemma post_orders_created:
  assumes "validationResult_create b = []"
    and "body_items b = Some its"
    and "payout its = Inr p"
  shows "\<exists>x s'. post_orders u now b s = (Json201 x, s')
     \<and> order_id x = ''ORD-'' @ decimal (nextOrderNumericId s)
     \<and> items x = its
     \<and> status x = Str ''pending''
     \<and> payoutAmount x = p
     \<and> driver x = None
     \<and> nextOrderNumericId s' = nextOrderNumericId s + 1
     \<and> inMemoryOrders s' = AList.update (order_id x) x (inMemoryOrders s)"
  using assms
  by (simp add: post_orders_def generateOrderId_def broadcastOrderEvent_delivered Let_def)


text \<open>A value in a binade below \<open>2^53\<close>, rounded at a significand that is given.\<close>

lemma fl_eval:
  assumes "2 ^ e \<le> x" and "x < 2 ^ Suc e" and "e + d = 52"
    and "rat_of_int m - 1 / 2 < x * 2 ^ d" and "x * 2 ^ d < rat_of_int m + 1 / 2"
  shows "fl x = Num (rat_of_int m / 2 ^ d)"
proof -
  have x0: "0 \<le> x" using assms(1) by (rule order_trans [rotated]) simp
  from ulp_shift_binade [OF assms(1,2)] assms(3)
  have k: "ulp_shift x + d = bias" by (simp add: bias_def)
  from round_half_even_nearest [OF assms(4,5)]
  have m: "m = round_half_even (x * 2 ^ d)" by simp
  have se: "Suc e + d = 53" using assms(3) by simp
  have "x * 2 ^ d < 2 ^ Suc e * 2 ^ d" using assms(2) by simp
  also have "\<dots> = 2 ^ 53" unfolding power_add [symmetric] se ..
  finally have "rat_of_int m < 2 ^ 53 + 1 / 2" using assms(4) by linarith
  then have "rat_of_int m / 2 ^ d \<le> (2 ^ 53 + 1 / 2) / 2 ^ d"
    by (intro divide_right_mono) simp_all
  also have "\<dots> \<le> (2 ^ 53 + 1 / 2) / 1"
    by (intro divide_left_mono) simp_all
  also have "\<dots> < (2::rat) ^ 54" by simp
  also have "(2::rat) ^ 54 \<le> 2 ^ emax" by (rule power_increasing) (simp_all add: emax_def)
  finally have b: "rat_of_int m / 2 ^ d < 2 ^ emax" .
  from fl_nonneg_unfold [OF x0 refl k m b] show ?thesis .
qed

text \<open>
  Whole prices and quantities that are not negative, with a total of at most \<open>2^50\<close>:
  every product and every partial sum is exact, and the rounded tenth of the total is the
  one of exact arithmetic.
\<close>

lemma fl_whole:
  assumes "x \<in> \<int>" and "0 \<le> x" and "x \<le> 2 ^ 50"
  shows "fl x = Num x"
proof -
  from assms(1) obtain n where x: "x = rat_of_int n" by (rule Ints_cases)
  from assms(2) have n0: "0 \<le> n" by (simp add: x)
  from assms(3) have "rat_of_int n \<le> rat_of_int (2 ^ 50)" by (simp add: x)
  then have "n \<le> 2 ^ 50" by (simp only: of_int_le_iff)
  moreover have "(2::int) ^ 50 < 2 ^ 53" by simp
  ultimately have "n < 2 ^ 53" by linarith
  with n0 show ?thesis unfolding x by (rule fl_int_exact)
qed

lemma reducer_numeric:
  assumes "a \<in> \<int>" and "0 \<le> a" and "p \<in> \<int>" and "0 \<le> p" and "q \<in> \<int>" and "0 \<le> q"
    and "a + p * (if q = 0 then 1 else q) \<le> 2 ^ 50"
  shows "reducer (Num a) (numeric_item (p, q)) = Inr (Num (a + p * (if q = 0 then 1 else q)))"
proof -
  let ?e = "if q = 0 then 1 else q"
  have e: "?e \<in> \<int>" "0 \<le> ?e" using assms(5,6) by simp_all
  have pe: "p * ?e \<in> \<int>" "0 \<le> p * ?e"
    using assms(3,4) e by (simp_all only: Ints_mult mult_nonneg_nonneg)
  with assms(2,7) have "p * ?e \<le> 2 ^ 50" by linarith
  with pe have 1: "fl (p * ?e) = Num (p * ?e)" by (rule fl_whole)
  have "a + p * ?e \<in> \<int>" "0 \<le> a + p * ?e" using assms(1,2) pe by simp_all
  from fl_whole [OF this assms(7)] have 2: "fl (a + p * ?e) = Num (a + p * ?e)" .
  have q: "Number (js_or (JNumber (Num q)) (JNumber (Num 1))) = Num ?e"
    by (simp add: js_or_def)
  show ?thesis
    by (simp only: numeric_item_def reducer.simps fst_conv snd_conv Number.simps q
        js_mul.simps 1 js_add.simps 2)
qed

lemma sum_whole:
  fixes pq :: "(rat \<times> rat) list"
  assumes "\<forall>(p, q) \<in> set pq. p \<in> \<int> \<and> q \<in> \<int> \<and> 0 \<le> p \<and> 0 \<le> q"
  shows "(\<Sum>(p, q)\<leftarrow>pq. p * (if q = 0 then 1 else q)) \<in> \<int>"
    and "0 \<le> (\<Sum>(p, q)\<leftarrow>pq. p * (if q = 0 then 1 else q))"
proof -
  show "(\<Sum>(p, q)\<leftarrow>pq. p * (if q = 0 then 1 else q)) \<in> \<int>"
    using assms by (induction pq) auto
  show "0 \<le> (\<Sum>(p, q)\<leftarrow>pq. p * (if q = 0 then 1 else q))"
    using assms by (induction pq) (auto intro!: add_nonneg_nonneg mult_nonneg_nonneg)
qed

lemma reduce_numeric:
  assumes "a \<in> \<int>" and "0 \<le> a"
    and "\<forall>(p, q) \<in> set pq. p \<in> \<int> \<and> q \<in> \<int> \<and> 0 \<le> p \<and> 0 \<le> q"
    and "a + (\<Sum>(p, q)\<leftarrow>pq. p * (if q = 0 then 1 else q)) \<le> 2 ^ 50"
  shows "reduce (map numeric_item pq) (Num a) =
     Inr (Num (a + (\<Sum>(p, q)\<leftarrow>pq. p * (if q = 0 then 1 else q))))"
  using assms
proof (induction pq arbitrary: a)
  case Nil
  show ?case by simp
next
  case (Cons x pq)
  obtain p q where x: "x = (p, q)" by (cases x)
  let ?e = "if q = 0 then 1 else q"
  let ?rest = "\<Sum>(p, q)\<leftarrow>pq. p * (if q = 0 then 1 else q)"
  from Cons.prems(3) have p: "p \<in> \<int>" "0 \<le> p" and q: "q \<in> \<int>" "0 \<le> q"
    and rest: "\<forall>(p, q) \<in> set pq. p \<in> \<int> \<and> q \<in> \<int> \<and> 0 \<le> p \<and> 0 \<le> q"
    by (simp_all add: x)
  have rest0: "0 \<le> ?rest" using rest by (rule sum_whole(2))
  have tot: "a + p * ?e + ?rest \<le> 2 ^ 50" using Cons.prems(4) by (simp add: x)
  with rest0 have step: "a + p * ?e \<le> 2 ^ 50" by linarith
  have a1: "a + p * ?e \<in> \<int>" "0 \<le> a + p * ?e" using Cons.prems(1,2) p q by simp_all
  from reducer_numeric [OF Cons.prems(1,2) p q step]
  have r: "reducer (Num a) (numeric_item (p, q)) = Inr (Num (a + p * ?e))" .
  from Cons.IH [OF a1 rest tot]
  have "reduce (map numeric_item pq) (Num (a + p * ?e)) = Inr (Num (a + p * ?e + ?rest))" .
  then show ?case by (simp add: x r add.assoc)
qed

lemma round_tenth_real: "round (0.1 * real_of_int s) = (s + 5) div 10"
proof -
  have "0.1 * real_of_int s + 1 / 2 = real_of_int (s + 5) / real_of_int 10" by simp
  then have "round (0.1 * real_of_int s) = \<lfloor>real_of_int (s + 5) / real_of_int 10\<rfloor>"
    by (simp only: round_def)
  also have "\<dots> = (s + 5) div 10" by (rule floor_divide_of_int_eq)
  finally show ?thesis .
qed

lemma sum_effective:
  "(\<Sum>(p, q)\<leftarrow>map (\<lambda>(p, q). (p, if q = 0 then 1 else q)) pq. p * q)
      = (\<Sum>(p, q)\<leftarrow>pq. p * (if q = 0 then 1 else q))"
  by (induction pq) auto

lemma payout_numeric:
  assumes "\<forall>(p, q) \<in> set pq. p \<in> \<int> \<and> q \<in> \<int> \<and> 0 \<le> p \<and> 0 \<le> q"
    and "(\<Sum>(p, q)\<leftarrow>pq. p * (if q = 0 then 1 else q)) \<le> 2 ^ 50"
  shows "payout (map numeric_item pq) =
     Inr (Num (rat_of_int (spec_payoutAmount (map (\<lambda>(p, q). (p, if q = 0 then 1 else q)) pq))))"
proof -
  let ?s = "\<Sum>(p, q)\<leftarrow>pq. p * (if q = 0 then 1 else q)"
  from sum_whole(1) [OF assms(1)] obtain n where n: "?s = rat_of_int n" by (rule Ints_cases)
  from sum_whole(2) [OF assms(1)] have n0: "0 \<le> n" by (simp add: n)
  from assms(2) have "rat_of_int n \<le> rat_of_int (2 ^ 50)" by (simp add: n)
  then have n50: "n \<le> 2 ^ 50" by (simp only: of_int_le_iff)
  have "0 \<in> \<int>" "(0::rat) \<le> 0" by simp_all
  from reduce_numeric [OF this assms(1)] assms(2)
  have r: "reduce (map numeric_item pq) (Num 0) = Inr (Num (rat_of_int n))" by (simp add: n)
  from fl_tenth [OF n0 n50]
  obtain f where f: "fl (rat_of_int n * tenth) = Num f"
    and ff: "\<lfloor>f + 1 / 2\<rfloor> = (n + 5) div 10" by blast
  have "Math_max (Num 30) (Math_round (js_mul (Num (rat_of_int n)) (Num tenth)))
      = Num (max 30 (rat_of_int ((n + 5) div 10)))"
    by (simp only: js_mul.simps f Math_round.simps ff Math_max.simps)
  also have "max 30 (rat_of_int ((n + 5) div 10)) = rat_of_int (max 30 ((n + 5) div 10))"
    by (simp add: max_def)
  finally have m: "Math_max (Num 30) (Math_round (js_mul (Num (rat_of_int n)) (Num tenth)))
      = Num (rat_of_int (max 30 ((n + 5) div 10)))" .
  have "real_of_rat ?s = real_of_int n" by (simp only: n of_rat_of_int_eq)
  then have "spec_payoutAmount (map (\<lambda>(p, q). (p, if q = 0 then 1 else q)) pq)
      = max 30 ((n + 5) div 10)"
    by (simp only: spec_payoutAmount_def round_tenth_real sum_effective)
  with r m show ?thesis by (simp add: payout_def)
qed

lemma nonzero_quantities:
  "\<forall>(p, q) \<in> set pq. q \<noteq> 0 \<Longrightarrow> map (\<lambda>(p, q). (p, if q = 0 then 1 else q)) pq = pq"
  by (induction pq) auto

text \<open>The payouts of the sample items.\<close>

lemma payout_demo: "payout [Item (JNumber (Num 500)) (JNumber (Num 2))] = Inr (Num 100)"
proof -
  have "payout (map numeric_item [(500, 2)]) = Inr (Num 100)"
    by (subst payout_numeric) (simp_all add: spec_payoutAmount_def)
  then show ?thesis by (simp add: numeric_item_def)
qed

lemma payout_Nullish: "payout [Nullish] = Inl TypeError"
  by (simp add: payout_def)

text \<open>
  Two payouts where the doubles depart from exact arithmetic. The first total is so large
  that its product with \<open>0.1\<close> falls on a half; the second is the sum of the doubles next
  to 100.3 and 204.7, which is less than 305 and is rounded to 305.
\<close>

lemma payout_large:
  "payout [numeric_item (6756222274808644, 1)] = Inr (Num 675622227480865)"
proof -
  have "fl (rat_of_int 6756222274808644) = Num (rat_of_int 6756222274808644)"
    by (rule fl_int_exact) simp_all
  then have e: "fl 6756222274808644 = Num 6756222274808644" by simp
  have "reduce [numeric_item (6756222274808644, 1)] (Num 0) = Inr (Num 6756222274808644)"
    by (simp add: numeric_item_def js_or_def e)
  then show ?thesis by (simp add: payout_def fl_example)
qed

lemma payout_fractional:
  "payout [numeric_item (7057985041019699 / 2 ^ 46, 1), numeric_item (3601120483291955 / 2 ^ 44, 1)]
     = Inr (Num 31)"
proof -
  let ?a = "7057985041019699 / 2 ^ 46 :: rat" and ?b = "3601120483291955 / 2 ^ 44 :: rat"
  have a: "fl ?a = Num ?a"
    using fl_eval [of 6 ?a 46 7057985041019699] by simp
  have b: "fl ?b = Num ?b"
    using fl_eval [of 7 ?b 45 7202240966583910] by simp
  have ab: "fl (?a + ?b) = Num 305"
    using fl_eval [of 8 "?a + ?b" 44 5365616743546880] by simp
  have t: "fl (305 * tenth) = Num (61 / 2)"
    using fl_eval [of 4 "305 * tenth" 48 8584986789675008] by (simp add: tenth_def)
  have "reduce [numeric_item (?a, 1), numeric_item (?b, 1)] (Num 0) = Inr (Num 305)"
    using a b ab by (simp add: numeric_item_def js_or_def)
  then show ?thesis using t by (simp add: payout_def)
qed

lemma spec_payoutAmount_fractional:
  "spec_payoutAmount [(7057985041019699 / 2 ^ 46, 1), (3601120483291955 / 2 ^ 44, 1)] = 30"
proof -
  let ?s = "7057985041019699 / 2 ^ 46 * 1 + (3601120483291955 / 2 ^ 44 * 1 + 0) :: rat"
  have "round (0.1 * real_of_rat ?s) = 30"
    unfolding round_def by (rule floor_unique) (simp_all add: of_rat_add of_rat_divide)
  then show ?thesis by (simp add: spec_payoutAmount_def)
qed
subsection \<open>Claims on single requests\<close>

text \<open>
  C2, as amended. For every create request that passes validation and whose items all
  carry a whole, non-negative price and a whole, non-negative quantity, with a sum of
  price times quantity of at most \<open>2^50\<close> when a quantity of 0 counts as 1, the created
  order's \<open>payoutAmount\<close> is the larger of 30 and the rounded tenth of that sum. When no
  quantity is 0 this is the formula of the specification, and items totalling 1000 then
  yield 100.
\<close>

theorem C2_payoutAmount:
  assumes "validationResult_create b = []"
    and "body_items b = Some (map numeric_item pq)"
    and "\<forall>(p, q) \<in> set pq. p \<in> \<int> \<and> q \<in> \<int> \<and> 0 \<le> p \<and> 0 \<le> q"
    and "(\<Sum>(p, q)\<leftarrow>pq. p * (if q = 0 then 1 else q)) \<le> 2 ^ 50"
  shows "\<exists>x s'. post_orders u now b s = (Json201 x, s')
     \<and> payoutAmount x =
         Num (rat_of_int (spec_payoutAmount (map (\<lambda>(p, q). (p, if q = 0 then 1 else q)) pq)))
     \<and> ((\<forall>(p, q) \<in> set pq. q \<noteq> 0) \<longrightarrow>
            payoutAmount x = Num (rat_of_int (spec_payoutAmount pq)))
     \<and> ((\<forall>(p, q) \<in> set pq. q \<noteq> 0) \<and> (\<Sum>(p, q)\<leftarrow>pq. p * q) = 1000
          \<longrightarrow> payoutAmount x = Num 100)"
proof -
  let ?eff = "map (\<lambda>(p, q). (p, if q = 0 then 1 else q)) pq"
  from post_orders_created [OF assms(1,2) payout_numeric [OF assms(3,4)]]
  obtain x s' where r: "post_orders u now b s = (Json201 x, s')"
    and p: "payoutAmount x = Num (rat_of_int (spec_payoutAmount ?eff))" by blast
  have a: "(\<forall>(p, q) \<in> set pq. q \<noteq> 0) \<longrightarrow>
      payoutAmount x = Num (rat_of_int (spec_payoutAmount pq))"
    using p by (simp add: nonzero_quantities)
  have "(\<forall>(p, q) \<in> set pq. q \<noteq> 0) \<and> (\<Sum>(p, q)\<leftarrow>pq. p * q) = 1000
          \<longrightarrow> spec_payoutAmount pq = 100"
    by (simp add: spec_payoutAmount_def)
  with a have c: "(\<forall>(p, q) \<in> set pq. q \<noteq> 0) \<and> (\<Sum>(p, q)\<leftarrow>pq. p * q) = 1000
          \<longrightarrow> payoutAmount x = Num 100" by simp
  from r p a c show ?thesis by blast
qed

theorem C2_payoutAmount_witness:
  "validationResult_create (demo_body\<lparr>body_items := Some (map numeric_item [(400, 2), (200, 1)])\<rparr>) = []
   \<and> (400::rat) \<in> \<int> \<and> (2::rat) \<in> \<int> \<and> (200::rat) \<in> \<int> \<and> (1::rat) \<in> \<int>
   \<and> (0::rat) \<le> 400 \<and> (0::rat) \<le> 2 \<and> (0::rat) \<le> 200 \<and> (0::rat) \<le> 1
   \<and> (2::rat) \<noteq> 0 \<and> (1::rat) \<noteq> 0
   \<and> (\<Sum>(p, q)\<leftarrow>[(400::rat, 2::rat), (200, 1)]. p * q) = 1000
   \<and> (1000::rat) \<le> 2 ^ 50
   \<and> (\<exists>x s'. post_orders None ''t0''
          (demo_body\<lparr>body_items := Some (map numeric_item [(400, 2), (200, 1)])\<rparr>) initial_state
          = (Json201 x, s') \<and> payoutAmount x = Num 100)"
proof -
  let ?b = "demo_body\<lparr>body_items := Some (map numeric_item [(400, 2), (200, 1)])\<rparr>"
  have v: "validationResult_create ?b = []"
    by (simp add: validationResult_create_def demo_body_def items_isArray_min1_def
        address_notEmpty_def str_truthy_def)
  have i: "body_items ?b = Some (map numeric_item [(400, 2), (200, 1)])" by simp
  have n: "\<forall>(p, q) \<in> set [(400::rat, 2::rat), (200, 1)]. p \<in> \<int> \<and> q \<in> \<int> \<and> 0 \<le> p \<and> 0 \<le> q"
    by simp
  have z: "\<forall>(p, q) \<in> set [(400::rat, 2::rat), (200, 1)]. q \<noteq> 0" by simp
  have t: "(\<Sum>(p, q)\<leftarrow>[(400::rat, 2::rat), (200, 1)]. p * q) = 1000" by simp
  have l: "(\<Sum>(p, q)\<leftarrow>[(400::rat, 2::rat), (200, 1)]. p * (if q = 0 then 1 else q)) \<le> 2 ^ 50"
    by simp
  from C2_payoutAmount [OF v i n l, of None "''t0''" initial_state] z t
  have "\<exists>x s'. post_orders None ''t0'' ?b initial_state = (Json201 x, s')
      \<and> payoutAmount x = Num 100" by blast
  with v t show ?thesis by simp
qed

text \<open>
  C2 as stated fails, in three ways. One item of price 1000 and quantity 0 gives a sum
  of price times quantity of 0, hence a payout of 30 by the formula, and the created
  order has 100. One item of price 6756222274808644 and quantity 1 gives 675622227480864
  by the formula, and the created order has 675622227480865. Two items of quantity 1
  whose prices are the doubles next to 100.3 and 204.7 give 30 by the formula, and the
  created order has 31.
\<close>

theorem C2_counterexample:
  "map_option payoutAmount
     (reply_order (fst (post_orders None ''t0''
        (demo_body\<lparr>body_items := Some [numeric_item (1000, 0)]\<rparr>) initial_state)))
     = Some (Num 100)
   \<and> spec_payoutAmount [(1000, 0)] = 30
   \<and> map_option payoutAmount
     (reply_order (fst (post_orders None ''t0''
        (demo_body\<lparr>body_items := Some [numeric_item (6756222274808644, 1)]\<rparr>) initial_state)))
     = Some (Num 675622227480865)
   \<and> spec_payoutAmount [(6756222274808644, 1)] = 675622227480864
   \<and> map_option payoutAmount
     (reply_order (fst (post_orders None ''t0''
        (demo_body\<lparr>body_items := Some
           [numeric_item (7057985041019699 / 2 ^ 46, 1),
            numeric_item (3601120483291955 / 2 ^ 44, 1)]\<rparr>) initial_state)))
     = Some (Num 31)
   \<and> spec_payoutAmount [(7057985041019699 / 2 ^ 46, 1), (3601120483291955 / 2 ^ 44, 1)] = 30"
proof -
  have p1: "payout [numeric_item (1000, 0)] = Inr (Num 100)"
  proof -
    have "payout (map numeric_item [(1000, 0)]) = Inr (Num 100)"
      by (subst payout_numeric) (simp_all add: spec_payoutAmount_def)
    then show ?thesis by simp
  qed
  have s1: "spec_payoutAmount [(1000, 0)] = 30" by (simp add: spec_payoutAmount_def)
  have "real_of_rat (6756222274808644 * 1 + 0) = real_of_int 6756222274808644" by simp
  then have "spec_payoutAmount [(6756222274808644, 1)] = max 30 ((6756222274808644 + 5) div 10)"
    unfolding spec_payoutAmount_def by (simp only: round_tenth_real list.map sum_list.Cons
        sum_list.Nil prod.case)
  then have s2: "spec_payoutAmount [(6756222274808644, 1)] = 675622227480864" by simp
  have v: "validationResult_create (demo_body\<lparr>body_items := Some its\<rparr>) = []" if "its \<noteq> []" for its
    using that
    by (cases its) (simp_all add: validationResult_create_def demo_body_def
        items_isArray_min1_def address_notEmpty_def str_truthy_def)
  have r: "map_option payoutAmount (reply_order (fst (post_orders None ''t0''
        (demo_body\<lparr>body_items := Some its\<rparr>) initial_state))) = Some p"
    if "payout its = Inr p" and "its \<noteq> []" for its p
    using that(1) v [OF that(2)]
    by (simp add: post_orders_def generateOrderId_def broadcastOrderEvent_delivered Let_def)
  from r [OF p1] r [OF payout_large] r [OF payout_fractional] s1 s2
    spec_payoutAmount_fractional
  show ?thesis by simp
qed

text \<open>
  C3. The assign route answers 404 (NotFound) and changes nothing when no order is stored
  under the id; answers 400 (InvalidState) and changes nothing when the stored order's
  status is not pending, confirmed or preparing, as when it is delivered; and otherwise
  answers with the order, its status set to \<open>out_for_delivery\<close> and the caller recorded
  as its driver, which is then the order stored under the id.
\<close>

theorem C3_assign:
  "(map_of (inMemoryOrders s) k = None \<longrightarrow>
      post_assign u k s = (Error404 ''Order not found'', s))
   \<and> (\<forall>x. map_of (inMemoryOrders s) k = Some x
          \<and> status x \<notin> {Str ''pending'', Str ''confirmed'', Str ''preparing''} \<longrightarrow>
        post_assign u k s = (Error400 ''Order is not available for assignment'', s))
   \<and> (\<forall>x. map_of (inMemoryOrders s) k = Some x \<and> status x = Str ''delivered'' \<longrightarrow>
        post_assign u k s = (Error400 ''Order is not available for assignment'', s))
   \<and> (\<forall>x. map_of (inMemoryOrders s) k = Some x
          \<and> status x \<in> {Str ''pending'', Str ''confirmed'', Str ''preparing''} \<longrightarrow>
        (\<exists>x' s'. post_assign u k s = (Json200 x', s')
           \<and> x' = x\<lparr>status := Str ''out_for_delivery'',
                     driver := Some \<lparr>driver_id = str_or (user_field user__id u) (user_field user_id u),
                                     driver_name = or_literal (user_field user_name u) ''Driver''\<rparr>\<rparr>
           \<and> map_of (inMemoryOrders s') k = Some x'))"
proof (intro conjI allI impI)
  assume "map_of (inMemoryOrders s) k = None"
  then show "post_assign u k s = (Error404 ''Order not found'', s)"
    by (rule post_assign_absent)
next
  fix x
  assume "map_of (inMemoryOrders s) k = Some x
    \<and> status x \<notin> {Str ''pending'', Str ''confirmed'', Str ''preparing''}"
  then show "post_assign u k s = (Error400 ''Order is not available for assignment'', s)"
    by (simp add: post_assign_refused)
next
  fix x
  assume "map_of (inMemoryOrders s) k = Some x \<and> status x = Str ''delivered''"
  then show "post_assign u k s = (Error400 ''Order is not available for assignment'', s)"
    by (simp add: post_assign_refused)
next
  fix x
  assume a: "map_of (inMemoryOrders s) k = Some x
    \<and> status x \<in> {Str ''pending'', Str ''confirmed'', Str ''preparing''}"
  let ?s' = "(set_mutated k (assigned u x) s)
        \<lparr>sseClients := map (delivered (Event ''order_assigned'' (assigned u x))) (sseClients s)\<rparr>"
  from a have "post_assign u k s = (Json200 (assigned u x), ?s')"
    by (simp add: post_assign_available)
  moreover have "map_of (inMemoryOrders ?s') k = Some (assigned u x)"
    by (simp add: map_of_set_mutated)
  ultimately show "\<exists>x' s'. post_assign u k s = (Json200 x', s')
           \<and> x' = x\<lparr>status := Str ''out_for_delivery'',
                     driver := Some \<lparr>driver_id = str_or (user_field user__id u) (user_field user_id u),
                                     driver_name = or_literal (user_field user_name u) ''Driver''\<rparr>\<rparr>
           \<and> map_of (inMemoryOrders s') k = Some x'"
    unfolding assigned_def by blast
qed

theorem C3_assign_witness:
  "map_of (inMemoryOrders demo_state) ''ORD-1'' = None
   \<and> post_assign (Some demo_user) ''ORD-1'' demo_state = (Error404 ''Order not found'', demo_state)
   \<and> map_option status (map_of (inMemoryOrders demo_state) ''ORD-1011'') = Some (Str ''delivered'')
   \<and> post_assign (Some demo_user) ''ORD-1011'' demo_state
       = (Error400 ''Order is not available for assignment'', demo_state)
   \<and> map_of (inMemoryOrders demo_state) ''ORD-1010'' = Some demo_order
   \<and> status demo_order \<in> {Str ''pending'', Str ''confirmed'', Str ''preparing''}
   \<and> (\<exists>s'. post_assign (Some demo_user) ''ORD-1010'' demo_state
          = (Json200 (demo_order\<lparr>status := Str ''out_for_delivery'',
                driver := Some \<lparr>driver_id = Some ''u7'', driver_name = ''Asha''\<rparr>\<rparr>), s'))"
proof -
  have a: "map_of (inMemoryOrders demo_state) ''ORD-1'' = None"
    by (simp add: demo_state_def)
  have b: "map_of (inMemoryOrders demo_state) ''ORD-1011''
      = Some (demo_order\<lparr>order_id := ''ORD-1011'', status := Str ''delivered''\<rparr>)"
    by (simp add: demo_state_def)
  have c: "map_of (inMemoryOrders demo_state) ''ORD-1010'' = Some demo_order"
    by (simp add: demo_state_def)
  have d: "status demo_order \<in> {Str ''pending'', Str ''confirmed'', Str ''preparing''}"
    by (simp add: demo_order_def)
  have e: "str_or (user_field user__id (Some demo_user)) (user_field user_id (Some demo_user))
      = Some ''u7''"
    by (simp add: str_or_def str_truthy_def user_field_def demo_user_def)
  have f: "or_literal (user_field user_name (Some demo_user)) ''Driver'' = ''Asha''"
    by (simp add: or_literal_def user_field_def demo_user_def)
  note t = C3_assign [of demo_state _ "Some demo_user"]
  from t [of "''ORD-1''"] a
  have 1: "post_assign (Some demo_user) ''ORD-1'' demo_state = (Error404 ''Order not found'', demo_state)"
    by blast
  from t [of "''ORD-1011''"] b
  have 2: "post_assign (Some demo_user) ''ORD-1011'' demo_state
       = (Error400 ''Order is not available for assignment'', demo_state)"
    by simp
  from t [of "''ORD-1010''"] c d
  have 3: "\<exists>s'. post_assign (Some demo_user) ''ORD-1010'' demo_state
          = (Json200 (demo_order\<lparr>status := Str ''out_for_delivery'',
                driver := Some \<lparr>driver_id = Some ''u7'', driver_name = ''Asha''\<rparr>\<rparr>), s')"
    unfolding e f by blast
  from a 1 b 2 c d 3 show ?thesis by simp
qed

text \<open>
  C4. On an order whose status is pending the accept route answers with the order, its
  status set to \<open>confirmed\<close>, which is then the stored order; a second call on the same
  id answers 400 (InvalidState) and leaves the whole state as the first call left it.
\<close>

theorem C4_accept_twice:
  assumes "map_of (inMemoryOrders s) k = Some x" and "status x = Str ''pending''"
  shows "\<exists>s1. post_accept_restaurant k s = (Json200 (x\<lparr>status := Str ''confirmed''\<rparr>), s1)
     \<and> map_of (inMemoryOrders s1) k = Some (x\<lparr>status := Str ''confirmed''\<rparr>)
     \<and> post_accept_restaurant k s1 = (Error400 ''Order cannot be accepted'', s1)"
proof -
  let ?x = "x\<lparr>status := Str ''confirmed''\<rparr>"
  let ?s1 = "(set_mutated k ?x s)
      \<lparr>sseClients := map (delivered (Event ''order_confirmed'' ?x)) (sseClients s)\<rparr>"
  have 1: "post_accept_restaurant k s = (Json200 ?x, ?s1)"
    using assms by (rule post_accept_restaurant_pending)
  have 2: "map_of (inMemoryOrders ?s1) k = Some ?x"
    by (simp add: map_of_set_mutated)
  have "status ?x \<noteq> Str ''pending''" by simp
  with 2 have 3: "post_accept_restaurant k ?s1 = (Error400 ''Order cannot be accepted'', ?s1)"
    by (rule post_accept_restaurant_refused)
  from 1 2 3 show ?thesis by blast
qed

theorem C4_accept_twice_witness:
  "map_of (inMemoryOrders demo_state) ''ORD-1010'' = Some demo_order
   \<and> status demo_order = Str ''pending''
   \<and> (\<exists>s1. post_accept_restaurant ''ORD-1010'' demo_state
              = (Json200 (demo_order\<lparr>status := Str ''confirmed''\<rparr>), s1)
          \<and> map_of (inMemoryOrders s1) ''ORD-1010'' = Some (demo_order\<lparr>status := Str ''confirmed''\<rparr>)
          \<and> post_accept_restaurant ''ORD-1010'' s1 = (Error400 ''Order cannot be accepted'', s1))"
proof -
  have a: "map_of (inMemoryOrders demo_state) ''ORD-1010'' = Some demo_order"
    by (simp add: demo_state_def)
  have b: "status demo_order = Str ''pending''" by (simp add: demo_order_def)
  from a b C4_accept_twice [OF a b] show ?thesis by blast
qed

text \<open>
  An update-status request whose status is absent, or a string that is none of the six
  enumerated values, is answered with the validation error and changes nothing.
\<close>

lemma put_order_status_rejects_string:
  assumes "v = NoStatus \<or> (\<exists>a. v = Str a \<and> a \<notin> {''pending'', ''confirmed'', ''preparing'',
    ''out_for_delivery'', ''delivered'', ''cancelled''})"
  shows "put_order_status k v s = (Errors400 [''Invalid order status''], s)"
  using assms by (auto simp: put_order_status_def status_isIn_def isIn_def)

text \<open>
  C5 does not hold of the code. After an order is created, an update-status request
  whose status is the array \<open>["delivered"]\<close>, which is none of the six enumerated values,
  is answered 200, and the order read back has that array as its status: the validator
  checks the element of the array, and the handler stores the array.
\<close>

theorem C5_array_status_stored:
  "map (map_option status \<circ> reply_order)
     (fst (run [PostOrders None ''t0'' demo_body,
                PutOrderStatus ''ORD-1010'' (Arr [''delivered'']),
                GetOrder ''ORD-1010''] initial_state))
     = [Some (Str ''pending''), Some (Arr [''delivered'']), Some (Arr [''delivered''])]
   \<and> Arr [''delivered''] \<notin> set (map Str [''pending'', ''confirmed'', ''preparing'',
         ''out_for_delivery'', ''delivered'', ''cancelled''])"
  by (simp add: initial_state_def demo_body_def post_orders_def validationResult_create_def
      items_isArray_min1_def address_notEmpty_def str_truthy_def generateOrderId_def
      decimal.simps digit_char_def payout_demo broadcastOrderEvent_delivered
      put_order_status_def status_isIn_def isIn_def set_mutated_def get_order_def Let_def)

text \<open>
  C6. \<open>broadcastOrderEvent\<close> never throws: it returns with every registered client
  written to, a client whose \<open>write\<close> fails being left as it was and the clients after it
  still receiving the event; with no client registered it returns the state unchanged.
  The reply of every route, and the orders it leaves stored, are those it gives with no
  client registered at all.
\<close>

theorem C6_broadcast:
  "(\<exists>cs. broadcastOrderEvent t p s = Inr (s\<lparr>sseClients := cs\<rparr>)
      \<and> length cs = length (sseClients s)
      \<and> (\<forall>i < length cs.
            cs ! i =
              (if writable (sseClients s ! i)
               then (sseClients s ! i)\<lparr>written := written (sseClients s ! i) @ [Event t p]\<rparr>
               else sseClients s ! i)))
   \<and> (sseClients s = [] \<longrightarrow> broadcastOrderEvent t p s = Inr s)
   \<and> fst (handle r s) = fst (handle r (s\<lparr>sseClients := []\<rparr>))
   \<and> inMemoryOrders (snd (handle r s)) = inMemoryOrders (snd (handle r (s\<lparr>sseClients := []\<rparr>)))"
proof (intro conjI)
  let ?cs = "map (delivered (Event t p)) (sseClients s)"
  have "broadcastOrderEvent t p s = Inr (s\<lparr>sseClients := ?cs\<rparr>)"
    by (rule broadcastOrderEvent_delivered)
  moreover have "length ?cs = length (sseClients s)" by simp
  moreover have "\<forall>i < length ?cs.
      ?cs ! i =
        (if writable (sseClients s ! i)
         then (sseClients s ! i)\<lparr>written := written (sseClients s ! i) @ [Event t p]\<rparr>
         else sseClients s ! i)"
    by (simp add: delivered_def)
  ultimately show "\<exists>cs. broadcastOrderEvent t p s = Inr (s\<lparr>sseClients := cs\<rparr>)
      \<and> length cs = length (sseClients s)
      \<and> (\<forall>i < length cs.
            cs ! i =
              (if writable (sseClients s ! i)
               then (sseClients s ! i)\<lparr>written := written (sseClients s ! i) @ [Event t p]\<rparr>
               else sseClients s ! i))"
    by blast
next
  show "sseClients s = [] \<longrightarrow> broadcastOrderEvent t p s = Inr s"
    by (simp add: broadcastOrderEvent_delivered)
next
  show "fst (handle r s) = fst (handle r (s\<lparr>sseClients := []\<rparr>))"
    by (cases r)
      (simp_all add: get_orders_def get_order_def get_available_list_def post_orders_def
        put_order_status_def post_assign_def post_accept_restaurant_def generateOrderId_def
        broadcastOrderEvent_delivered set_mutated_def Let_def
        split: option.splits sum.splits)
next
  show "inMemoryOrders (snd (handle r s))
      = inMemoryOrders (snd (handle r (s\<lparr>sseClients := []\<rparr>)))"
    by (cases r)
      (simp_all add: get_orders_def get_order_def get_available_list_def post_orders_def
        put_order_status_def post_assign_def post_accept_restaurant_def generateOrderId_def
        broadcastOrderEvent_delivered set_mutated_def Let_def
        split: option.splits sum.splits)
qed

theorem C6_broadcast_witness:
  "(1::nat) < length (sseClients demo_state)
   \<and> \<not> writable (sseClients demo_state ! 0)
   \<and> writable (sseClients demo_state ! 1)
   \<and> (\<exists>cs. broadcastOrderEvent ''order_updated'' demo_order demo_state
              = Inr (demo_state\<lparr>sseClients := cs\<rparr>)
          \<and> cs ! 0 = \<lparr>writable = False, written = []\<rparr>
          \<and> cs ! 1 = \<lparr>writable = True, written = [Event ''order_updated'' demo_order]\<rparr>)"
proof -
  have l: "length (sseClients demo_state) = 2"
    and c0: "sseClients demo_state ! 0 = \<lparr>writable = False, written = []\<rparr>"
    and c1: "sseClients demo_state ! 1 = \<lparr>writable = True, written = []\<rparr>"
    by (simp_all add: demo_state_def)
  from C6_broadcast [of "''order_updated''" demo_order demo_state GetOrders]
  obtain cs where r: "broadcastOrderEvent ''order_updated'' demo_order demo_state
        = Inr (demo_state\<lparr>sseClients := cs\<rparr>)"
    and n: "length cs = length (sseClients demo_state)"
    and d: "\<forall>i < length cs.
            cs ! i =
              (if writable (sseClients demo_state ! i)
               then (sseClients demo_state ! i)
                 \<lparr>written := written (sseClients demo_state ! i) @ [Event ''order_updated'' demo_order]\<rparr>
               else sseClients demo_state ! i)"
    by blast
  from n l have i0: "0 < length cs" and i1: "1 < length cs" by simp_all
  have r0: "cs ! 0 = \<lparr>writable = False, written = []\<rparr>"
    using d [rule_format, OF i0] unfolding c0 by simp
  have r1: "cs ! 1 = \<lparr>writable = True, written = [Event ''order_updated'' demo_order]\<rparr>"
    using d [rule_format, OF i1] unfolding c1 by simp
  have "1 < length (sseClients demo_state)" using l by simp
  moreover have "\<not> writable (sseClients demo_state ! 0)" unfolding c0 by simp
  moreover have "writable (sseClients demo_state ! 1)" unfolding c1 by simp
  ultimately show ?thesis using r r0 r1 by blast
qed

text \<open>
  C7. A create request that passes validation and has no \<open>null\<close> among its items is
  answered 201 with an order whose status is \<open>pending\<close>, and the get route, called with
  the id of that order on the state the create left, answers with that same order.
\<close>

theorem C7_create_then_get:
  assumes "validationResult_create b = []"
    and "body_items b = Some its"
    and "Nullish \<notin> set its"
  shows "\<exists>x s'. post_orders u now b s = (Json201 x, s')
     \<and> status x = Str ''pending''
     \<and> get_order (order_id x) s' = (Json200 x, s')"
proof -
  from payout_no_Nullish [OF assms(3)] obtain p where "payout its = Inr p" ..
  from post_orders_created [OF assms(1,2) this]
  obtain x s' where r: "post_orders u now b s = (Json201 x, s')"
    and st: "status x = Str ''pending''"
    and m: "inMemoryOrders s' = AList.update (order_id x) x (inMemoryOrders s)"
    by blast
  from m have "get_order (order_id x) s' = (Json200 x, s')"
    by (simp add: get_order_def update_conv')
  with r st show ?thesis by blast
qed

theorem C7_create_then_get_witness:
  "validationResult_create demo_body = []
   \<and> body_items demo_body = Some [Item (JNumber (Num 500)) (JNumber (Num 2))]
   \<and> Nullish \<notin> set [Item (JNumber (Num 500)) (JNumber (Num 2))]
   \<and> (\<exists>x s'. post_orders None ''t0'' demo_body initial_state = (Json201 x, s')
          \<and> status x = Str ''pending''
          \<and> get_order (order_id x) s' = (Json200 x, s'))"
proof -
  have v: "validationResult_create demo_body = []"
    by (simp add: validationResult_create_def demo_body_def items_isArray_min1_def
        address_notEmpty_def str_truthy_def)
  have i: "body_items demo_body = Some [Item (JNumber (Num 500)) (JNumber (Num 2))]"
    by (simp add: demo_body_def)
  have n: "Nullish \<notin> set [Item (JNumber (Num 500)) (JNumber (Num 2))]" by simp
  from v i n C7_create_then_get [OF v i n, of None "''t0''" initial_state]
  show ?thesis by (intro conjI)
qed

text \<open>
  C10. A create request whose items hold one with a falsy quantity (absent, \<open>null\<close>,
  \<open>false\<close>, 0 or \<open>NaN\<close>) is answered 201 as soon as the delivery address and the payment
  method are present and no item is \<open>null\<close>: no validator looks at a quantity. The payout
  of the created order is the one the same items give with that quantity replaced by 1.
\<close>

theorem C10_falsy_quantity:
  assumes "body_items b = Some (xs @ Item price quantity # ys)"
    and "\<not> truthy quantity"
    and "address_notEmpty (body_deliveryAddress b)"
    and "str_truthy (body_paymentMethod b)"
    and "Nullish \<notin> set xs \<union> set ys"
  shows "\<exists>x s'. post_orders u now b s = (Json201 x, s')
     \<and> items x = xs @ Item price quantity # ys
     \<and> Inr (payoutAmount x) = payout (xs @ Item price (JNumber (Num 1)) # ys)"
proof -
  let ?its = "xs @ Item price quantity # ys"
  have v: "validationResult_create b = []"
    using assms(1,3,4) by (simp add: validationResult_create_empty items_isArray_min1_def)
  have "Nullish \<notin> set ?its" using assms(5) by simp
  from payout_no_Nullish [OF this] obtain p where p: "payout ?its = Inr p" ..
  have "reducer acc (Item price quantity) = reducer acc (Item price (JNumber (Num 1)))" for acc
    using assms(2) by (simp add: js_or_def)
  then have "reduce (Item price quantity # ys) acc
      = reduce (Item price (JNumber (Num 1)) # ys) acc" for acc
    by (simp only: reduce.simps)
  then have "reduce ?its acc = reduce (xs @ Item price (JNumber (Num 1)) # ys) acc" for acc
    by (induction xs arbitrary: acc) (simp_all split: sum.splits)
  then have e: "payout ?its = payout (xs @ Item price (JNumber (Num 1)) # ys)"
    by (simp only: payout_def)
  from post_orders_created [OF v assms(1) p]
  obtain x s' where "post_orders u now b s = (Json201 x, s')"
    and "items x = ?its" and "payoutAmount x = p" by blast
  with p e show ?thesis by auto
qed

theorem C10_falsy_quantity_witness:
  "body_items (demo_body\<lparr>body_items := Some ([] @ Item (JNumber (Num 1000)) JUndefined # [])\<rparr>)
     = Some ([] @ Item (JNumber (Num 1000)) JUndefined # [])
   \<and> \<not> truthy JUndefined
   \<and> address_notEmpty (body_deliveryAddress demo_body)
   \<and> str_truthy (body_paymentMethod demo_body)
   \<and> (\<exists>x s'. post_orders None ''t0''
          (demo_body\<lparr>body_items := Some ([] @ Item (JNumber (Num 1000)) JUndefined # [])\<rparr>)
          initial_state = (Json201 x, s')
        \<and> payoutAmount x = Num 100)"
proof -
  let ?b = "demo_body\<lparr>body_items := Some ([] @ Item (JNumber (Num 1000)) JUndefined # [])\<rparr>"
  have i: "body_items ?b = Some ([] @ Item (JNumber (Num 1000)) JUndefined # [])" by simp
  have q: "\<not> truthy JUndefined" by simp
  have a: "address_notEmpty (body_deliveryAddress ?b)"
    by (simp add: demo_body_def address_notEmpty_def)
  have m: "str_truthy (body_paymentMethod ?b)"
    by (simp add: demo_body_def str_truthy_def)
  have n: "Nullish \<notin> set [] \<union> set []" by simp
  have "payout (map numeric_item [(1000, 1)]) = Inr (Num 100)"
    by (subst payout_numeric) (simp_all add: spec_payoutAmount_def)
  then have p: "payout ([] @ Item (JNumber (Num 1000)) (JNumber (Num 1)) # []) = Inr (Num 100)"
    by (simp add: numeric_item_def)
  from C10_falsy_quantity [OF i q a m n, of None "''t0''" initial_state]
  have "\<exists>x s'. post_orders None ''t0'' ?b initial_state = (Json201 x, s')
        \<and> payoutAmount x = Num 100"
    unfolding p by auto
  with i q a m show ?thesis by simp
qed


subsection \<open>Stored orders sit under their own id\<close>

lemma set_update_subset: "set (AList.update k v al) \<subseteq> insert (k, v) (set al)"
  by (induction al) auto

lemma wf_store_lookup:
  "wf_store s \<Longrightarrow> map_of (inMemoryOrders s) k = Some x \<Longrightarrow> order_id x = k"
  by (auto simp: wf_store_def dest: map_of_SomeD)

lemma wf_store_sseClients: "wf_store (s\<lparr>sseClients := cs\<rparr>) = wf_store s"
  by (simp add: wf_store_def)

lemma wf_store_update:
  assumes "wf_store s" and "order_id x = k"
  shows "wf_store (s\<lparr>inMemoryOrders := AList.update k x (inMemoryOrders s)\<rparr>)"
  using assms set_update_subset [of k x "inMemoryOrders s"]
  by (auto simp: wf_store_def)

lemma set_mutated_own_id:
  "order_id x = k \<Longrightarrow>
     set_mutated k x s = s\<lparr>inMemoryOrders := AList.update k x (inMemoryOrders s)\<rparr>"
  by (simp add: set_mutated_def)

lemma wf_store_set_mutated:
  "wf_store s \<Longrightarrow> order_id x = k \<Longrightarrow> wf_store (set_mutated k x s)"
  by (simp add: set_mutated_own_id wf_store_update)

lemma lookup_set_mutated:
  "order_id x = k \<Longrightarrow>
     map_of (inMemoryOrders (set_mutated k x s)) k' =
       (if k' = k then Some x else map_of (inMemoryOrders s) k')"
  by (simp add: set_mutated_own_id update_conv')

lemma wf_store_initial_state: "wf_store initial_state"
  by (simp add: wf_store_def initial_state_def)

subsection \<open>Moving forward in the lifecycle\<close>

lemma forward_refl: "forward v v"
  by (simp add: forward_def)

lemma lifecycle_rank_cancelled: "lifecycle_rank (Str ''cancelled'') = None"
  by (simp add: lifecycle_rank_def)

lemma forward_trans: "forward a b \<Longrightarrow> forward b c \<Longrightarrow> forward a c"
  by (auto simp: forward_def lifecycle_rank_cancelled split: option.splits)

lemma forward_accept: "forward (Str ''pending'') (Str ''confirmed'')"
  by (simp add: forward_def lifecycle_rank_def)

lemma forward_assign:
  "v \<in> {Str ''pending'', Str ''confirmed'', Str ''preparing''} \<Longrightarrow> forward v (Str ''out_for_delivery'')"
  by (auto simp: forward_def lifecycle_rank_def)

text \<open>
  Two orders that differ at most in \<open>status\<close> and \<open>driver\<close>: the second, with the first's
  values put back, is the first.
\<close>

lemma same_fields_trans:
  fixes x y z :: order
  assumes "y\<lparr>status := status x, driver := driver x\<rparr> = x"
    and "z\<lparr>status := status y, driver := driver y\<rparr> = y"
  shows "z\<lparr>status := status x, driver := driver x\<rparr> = x"
proof -
  from assms(2) have "y\<lparr>status := status x, driver := driver x\<rparr>
      = (z\<lparr>status := status y, driver := driver y\<rparr>)\<lparr>status := status x, driver := driver x\<rparr>"
    by simp
  also have "\<dots> = z\<lparr>status := status x, driver := driver x\<rparr>" by simp
  finally show ?thesis using assms(1) by simp
qed

subsection \<open>One request to a status route\<close>

text \<open>
  On a well-formed store a request to a status route either leaves the state as it is, or
  replaces the order under one id by one that differs at most in status and driver.
\<close>

lemma handle_mutating:
  assumes wf: "wf_store s" and m: "mutating r"
  shows "snd (handle r s) = s \<or>
    (\<exists>k y y'. map_of (inMemoryOrders s) k = Some y
       \<and> order_id y' = k
       \<and> y'\<lparr>status := status y, driver := driver y\<rparr> = y
       \<and> (\<not> is_assign r \<longrightarrow> driver y' = driver y)
       \<and> (guarded r \<longrightarrow> forward (status y) (status y'))
       \<and> inMemoryOrders (snd (handle r s)) = inMemoryOrders (set_mutated k y' s))"
proof (cases r)
  case (PutOrderStatus k v)
  show ?thesis
  proof (cases "status_isIn v")
    case False
    then show ?thesis by (simp add: PutOrderStatus put_order_status_invalid)
  next
    case True
    show ?thesis
    proof (cases "map_of (inMemoryOrders s) k")
      case None
      then show ?thesis by (simp add: PutOrderStatus put_order_status_absent True)
    next
      case (Some y)
      have "order_id (y\<lparr>status := v\<rparr>) = k" using wf_store_lookup [OF wf Some] by simp
      moreover have "(y\<lparr>status := v\<rparr>)\<lparr>status := status y, driver := driver y\<rparr> = y" by simp
      moreover have "driver (y\<lparr>status := v\<rparr>) = driver y" by simp
      moreover have "inMemoryOrders (snd (handle r s))
          = inMemoryOrders (set_mutated k (y\<lparr>status := v\<rparr>) s)"
        by (simp add: PutOrderStatus put_order_status_present [OF Some True])
      ultimately show ?thesis using Some unfolding PutOrderStatus by fastforce
    qed
  qed
next
  case (PostAssign u k)
  show ?thesis
  proof (cases "map_of (inMemoryOrders s) k")
    case None
    then show ?thesis by (simp add: PostAssign post_assign_absent)
  next
    case (Some y)
    show ?thesis
    proof (cases "status y \<in> {Str ''pending'', Str ''confirmed'', Str ''preparing''}")
      case False
      then show ?thesis by (simp add: PostAssign post_assign_refused [OF Some])
    next
      case True
      have "order_id (assigned u y) = k"
        using wf_store_lookup [OF wf Some] by (simp add: assigned_def)
      moreover have "(assigned u y)\<lparr>status := status y, driver := driver y\<rparr> = y"
        by (simp add: assigned_def)
      moreover have "forward (status y) (status (assigned u y))"
        using forward_assign [OF True] by (simp add: assigned_def)
      moreover have "inMemoryOrders (snd (handle r s))
          = inMemoryOrders (set_mutated k (assigned u y) s)"
        by (simp add: PostAssign post_assign_available [OF Some True])
      ultimately show ?thesis using Some unfolding PostAssign by fastforce
    qed
  qed
next
  case (PostAcceptRestaurant k)
  show ?thesis
  proof (cases "map_of (inMemoryOrders s) k")
    case None
    then show ?thesis by (simp add: PostAcceptRestaurant post_accept_restaurant_absent)
  next
    case (Some y)
    show ?thesis
    proof (cases "status y = Str ''pending''")
      case False
      then show ?thesis
        by (simp add: PostAcceptRestaurant post_accept_restaurant_refused [OF Some])
    next
      case True
      have "order_id (y\<lparr>status := Str ''confirmed''\<rparr>) = k"
        using wf_store_lookup [OF wf Some] by simp
      moreover have "(y\<lparr>status := Str ''confirmed''\<rparr>)\<lparr>status := status y, driver := driver y\<rparr> = y"
        by simp
      moreover have "driver (y\<lparr>status := Str ''confirmed''\<rparr>) = driver y" by simp
      moreover have "forward (status y) (status (y\<lparr>status := Str ''confirmed''\<rparr>))"
        using forward_accept by (simp add: True)
      moreover have "inMemoryOrders (snd (handle r s))
          = inMemoryOrders (set_mutated k (y\<lparr>status := Str ''confirmed''\<rparr>) s)"
        by (simp add: PostAcceptRestaurant post_accept_restaurant_pending [OF Some True])
      ultimately show ?thesis using Some unfolding PostAcceptRestaurant by fastforce
    qed
  qed
qed (use m in simp_all)


lemma wf_store_cong: "inMemoryOrders s1 = inMemoryOrders s2 \<Longrightarrow> wf_store s1 = wf_store s2"
  by (simp add: wf_store_def)

lemma step_mutating_wf:
  assumes wf: "wf_store s" and m: "mutating r"
  shows "wf_store (snd (handle r s))"
proof -
  from handle_mutating [OF wf m]
  consider (same) "snd (handle r s) = s"
    | (changed) k' y' where "order_id y' = k'"
        and "inMemoryOrders (snd (handle r s)) = inMemoryOrders (set_mutated k' y' s)"
    by blast
  then show ?thesis
  proof cases
    case same
    with wf show ?thesis by simp
  next
    case changed
    from wf_store_set_mutated [OF wf changed(1)] wf_store_cong [OF changed(2)]
    show ?thesis by simp
  qed
qed

lemma step_mutating:
  assumes wf: "wf_store s" and m: "mutating r"
    and x: "map_of (inMemoryOrders s) k = Some x"
  shows "wf_store (snd (handle r s)) \<and>
    (\<exists>x'. map_of (inMemoryOrders (snd (handle r s))) k = Some x'
       \<and> x'\<lparr>status := status x, driver := driver x\<rparr> = x
       \<and> (\<not> is_assign r \<longrightarrow> driver x' = driver x)
       \<and> (guarded r \<longrightarrow> forward (status x) (status x')))"
proof -
  from handle_mutating [OF wf m]
  consider (same) "snd (handle r s) = s"
    | (changed) k' y y' where "map_of (inMemoryOrders s) k' = Some y"
        and "order_id y' = k'"
        and "y'\<lparr>status := status y, driver := driver y\<rparr> = y"
        and "\<not> is_assign r \<longrightarrow> driver y' = driver y"
        and "guarded r \<longrightarrow> forward (status y) (status y')"
        and "inMemoryOrders (snd (handle r s)) = inMemoryOrders (set_mutated k' y' s)"
    by blast
  then show ?thesis
  proof cases
    case same
    have "x\<lparr>status := status x, driver := driver x\<rparr> = x" by simp
    with same wf x forward_refl [of "status x"] show ?thesis by simp
  next
    case changed
    have w: "wf_store (snd (handle r s))"
      using wf m by (rule step_mutating_wf)
    have l: "map_of (inMemoryOrders (snd (handle r s))) k
        = (if k = k' then Some y' else Some x)"
      using lookup_set_mutated [OF changed(2), of s k] x by (simp add: changed(6))
    show ?thesis
    proof (cases "k = k'")
      case True
      with changed(1) x have "y = x" by simp
      with changed(3,4,5) l True w show ?thesis by simp
    next
      case False
      have "x\<lparr>status := status x, driver := driver x\<rparr> = x" by simp
      with False l w forward_refl [of "status x"] show ?thesis by simp
    qed
  qed
qed

lemma snd_run_Cons: "snd (run (r # rs) s) = snd (run rs (snd (handle r s)))"
  by (simp add: Let_def split: prod.splits)

lemma fst_run_Cons: "fst (run (r # rs) s) = fst (handle r s) # fst (run rs (snd (handle r s)))"
  by (simp add: Let_def split: prod.splits)

text \<open>Any number of requests to the status routes, on a well-formed store.\<close>

lemma run_mutating:
  assumes "wf_store s" and "\<forall>r \<in> set rs. mutating r"
    and "map_of (inMemoryOrders s) k = Some x"
  shows "\<exists>x'. map_of (inMemoryOrders (snd (run rs s))) k = Some x'
       \<and> x'\<lparr>status := status x, driver := driver x\<rparr> = x
       \<and> ((\<forall>r \<in> set rs. \<not> is_assign r) \<longrightarrow> driver x' = driver x)
       \<and> ((\<forall>r \<in> set rs. guarded r) \<longrightarrow> forward (status x) (status x'))"
  using assms
proof (induction rs arbitrary: s x)
  case Nil
  have "x\<lparr>status := status x, driver := driver x\<rparr> = x" by simp
  with Nil forward_refl [of "status x"] show ?case by simp
next
  case (Cons r rs)
  from Cons.prems have m: "mutating r" and ms: "\<forall>r \<in> set rs. mutating r" by simp_all
  from step_mutating [OF Cons.prems(1) m Cons.prems(3)]
  obtain y where wf1: "wf_store (snd (handle r s))"
    and y: "map_of (inMemoryOrders (snd (handle r s))) k = Some y"
    and xy: "y\<lparr>status := status x, driver := driver x\<rparr> = x"
    and dy: "\<not> is_assign r \<longrightarrow> driver y = driver x"
    and fy: "guarded r \<longrightarrow> forward (status x) (status y)"
    by blast
  from Cons.IH [OF wf1 ms y]
  obtain z where z: "map_of (inMemoryOrders (snd (run rs (snd (handle r s))))) k = Some z"
    and yz: "z\<lparr>status := status y, driver := driver y\<rparr> = y"
    and dz: "(\<forall>r \<in> set rs. \<not> is_assign r) \<longrightarrow> driver z = driver y"
    and fz: "(\<forall>r \<in> set rs. guarded r) \<longrightarrow> forward (status y) (status z)"
    by blast
  have 1: "map_of (inMemoryOrders (snd (run (r # rs) s))) k = Some z"
    using z by (simp only: snd_run_Cons)
  have 2: "z\<lparr>status := status x, driver := driver x\<rparr> = x"
    using xy yz by (rule same_fields_trans)
  have 3: "(\<forall>r \<in> set (r # rs). \<not> is_assign r) \<longrightarrow> driver z = driver x"
    using dy dz by simp
  have 4: "(\<forall>r \<in> set (r # rs). guarded r) \<longrightarrow> forward (status x) (status z)"
    using fy fz forward_trans by auto
  from 1 2 3 4 show ?case by blast
qed

text \<open>Every route keeps the store well-formed, so every state the server reaches is.\<close>

lemma post_orders_store:
  "inMemoryOrders (snd (post_orders u now b s)) = inMemoryOrders s \<or>
   (\<exists>x. inMemoryOrders (snd (post_orders u now b s))
      = AList.update (order_id x) x (inMemoryOrders s))"
proof (cases "validationResult_create b = []")
  case False
  then show ?thesis by (simp add: post_orders_def)
next
  case True
  show ?thesis
  proof (cases "body_items b")
    case None
    with True show ?thesis by (simp add: post_orders_def generateOrderId_def)
  next
    case (Some its)
    show ?thesis
    proof (cases "payout its")
      case (Inl e)
      with True Some show ?thesis by (simp add: post_orders_def generateOrderId_def)
    next
      case (Inr p)
      from post_orders_created [OF True Some Inr, of u now s]
      obtain x s' where "post_orders u now b s = (Json201 x, s')"
        and "inMemoryOrders s' = AList.update (order_id x) x (inMemoryOrders s)"
        by blast
      then have "inMemoryOrders (snd (post_orders u now b s))
          = AList.update (order_id x) x (inMemoryOrders s)" by simp
      then show ?thesis by blast
    qed
  qed
qed

lemma wf_store_handle:
  assumes wf: "wf_store s"
  shows "wf_store (snd (handle r s))"
proof (cases r)
  case GetOrders
  with wf show ?thesis by (simp add: get_orders_def)
next
  case (PostOrders u now b)
  from post_orders_store [of u now b s]
  consider (same) "inMemoryOrders (snd (post_orders u now b s)) = inMemoryOrders s"
    | (stored) x where "inMemoryOrders (snd (post_orders u now b s))
        = AList.update (order_id x) x (inMemoryOrders s)"
    by blast
  then have "wf_store (snd (post_orders u now b s))"
  proof cases
    case same
    from wf_store_cong [OF same] wf show ?thesis by simp
  next
    case stored
    from wf_store_update [OF wf refl, of x] show ?thesis
      by (simp add: wf_store_def stored)
  qed
  then show ?thesis by (simp add: PostOrders)
next
  case (GetOrder k)
  with wf show ?thesis by (simp add: get_order_def split: option.splits)
next
  case (PutOrderStatus k v)
  then have "mutating r" by simp
  from step_mutating_wf [OF wf this] show ?thesis .
next
  case GetAvailableList
  with wf show ?thesis by (simp add: get_available_list_def)
next
  case (PostAssign u k)
  then have "mutating r" by simp
  from step_mutating_wf [OF wf this] show ?thesis .
next
  case (PostAcceptRestaurant k)
  then have "mutating r" by simp
  from step_mutating_wf [OF wf this] show ?thesis .
qed

lemma wf_store_run: "wf_store s \<Longrightarrow> wf_store (snd (run rs s))"
proof (induction rs arbitrary: s)
  case Nil
  then show ?case by simp
next
  case (Cons r rs)
  from Cons.IH [OF wf_store_handle [OF Cons.prems], of r]
  show ?case by (simp only: snd_run_Cons)
qed


subsection \<open>Claims on sequences of status requests\<close>

lemma guarded_mutating: "guarded r \<Longrightarrow> mutating r"
  by (cases r) simp_all

lemma wf_store_demo_state: "wf_store demo_state"
  by (simp add: wf_store_def demo_state_def demo_order_def)

text \<open>
  C1, as amended. On a store where every order sits under its own id, any sequence of
  assign and acceptByRestaurant requests leaves each stored order with a status that is
  the one it had, or a later one of the lifecycle pending, confirmed, preparing,
  out_for_delivery, delivered, or cancelled. The update-status route sets any of the six
  enumerated values, whatever the status of the order is.
\<close>

theorem C1_status_forward:
  assumes "wf_store s"
    and "map_of (inMemoryOrders s) k = Some x"
    and "\<forall>r \<in> set rs. guarded r"
  shows "(\<exists>x'. map_of (inMemoryOrders (snd (run rs s))) k = Some x'
            \<and> forward (status x) (status x'))
     \<and> (\<forall>v \<in> {Str ''pending'', Str ''confirmed'', Str ''preparing'', Str ''out_for_delivery'', Str ''delivered'',
                Str ''cancelled''}.
          \<exists>s'. put_order_status k v s = (Json200 (x\<lparr>status := v\<rparr>), s')
             \<and> map_of (inMemoryOrders s') k = Some (x\<lparr>status := v\<rparr>))"
proof
  from assms(3) have "\<forall>r \<in> set rs. mutating r" by (simp add: guarded_mutating)
  from run_mutating [OF assms(1) this assms(2)] assms(3)
  show "\<exists>x'. map_of (inMemoryOrders (snd (run rs s))) k = Some x'
            \<and> forward (status x) (status x')" by blast
next
  show "\<forall>v \<in> {Str ''pending'', Str ''confirmed'', Str ''preparing'', Str ''out_for_delivery'', Str ''delivered'',
                Str ''cancelled''}.
          \<exists>s'. put_order_status k v s = (Json200 (x\<lparr>status := v\<rparr>), s')
             \<and> map_of (inMemoryOrders s') k = Some (x\<lparr>status := v\<rparr>)"
  proof
    fix v :: status_value
    assume "v \<in> {Str ''pending'', Str ''confirmed'', Str ''preparing'', Str ''out_for_delivery'',
      Str ''delivered'', Str ''cancelled''}"
    then have "status_isIn v" by (auto simp: status_isIn_def isIn_def)
    from put_order_status_present [OF assms(2) this]
    show "\<exists>s'. put_order_status k v s = (Json200 (x\<lparr>status := v\<rparr>), s')
             \<and> map_of (inMemoryOrders s') k = Some (x\<lparr>status := v\<rparr>)"
      by (simp add: map_of_set_mutated)
  qed
qed

theorem C1_status_forward_witness:
  "wf_store demo_state
   \<and> map_of (inMemoryOrders demo_state) ''ORD-1010'' = Some demo_order
   \<and> guarded (PostAcceptRestaurant ''ORD-1010'')
   \<and> guarded (PostAssign (Some demo_user) ''ORD-1010'')
   \<and> (\<exists>x'. map_of (inMemoryOrders (snd (run
          [PostAcceptRestaurant ''ORD-1010'', PostAssign (Some demo_user) ''ORD-1010'',
           PostAcceptRestaurant ''ORD-1010''] demo_state))) ''ORD-1010'' = Some x'
        \<and> forward (status demo_order) (status x'))"
proof -
  let ?rs = "[PostAcceptRestaurant ''ORD-1010'', PostAssign (Some demo_user) ''ORD-1010'',
           PostAcceptRestaurant ''ORD-1010'']"
  have a: "map_of (inMemoryOrders demo_state) ''ORD-1010'' = Some demo_order"
    by (simp add: demo_state_def)
  have g: "\<forall>r \<in> set ?rs. guarded r" by simp
  from C1_status_forward [OF wf_store_demo_state a g]
  have "\<exists>x'. map_of (inMemoryOrders (snd (run ?rs demo_state))) ''ORD-1010'' = Some x'
        \<and> forward (status demo_order) (status x')" by (rule conjunct1)
  with wf_store_demo_state a show ?thesis by simp
qed

text \<open>
  C1 as stated fails: after an order is created and set to \<open>delivered\<close>, the
  update-status route sets it back to \<open>pending\<close>, and the order read back is pending.
\<close>

theorem C1_counterexample:
  "map (map_option status \<circ> reply_order)
     (fst (run [PostOrders None ''t0'' demo_body,
                PutOrderStatus ''ORD-1010'' (Str ''delivered''),
                PutOrderStatus ''ORD-1010'' (Str ''pending''),
                GetOrder ''ORD-1010''] initial_state))
     = [Some (Str ''pending''), Some (Str ''delivered''), Some (Str ''pending''), Some (Str ''pending'')]
   \<and> \<not> forward (Str ''delivered'') (Str ''pending'')"
  by (simp add: initial_state_def demo_body_def post_orders_def validationResult_create_def
      items_isArray_min1_def address_notEmpty_def str_truthy_def generateOrderId_def
      decimal.simps digit_char_def payout_demo broadcastOrderEvent_delivered
      put_order_status_def status_isIn_def isIn_def set_mutated_def get_order_def
      forward_def lifecycle_rank_def Let_def)

text \<open>
  C9. On a store where every order sits under its own id, any sequence of update-status,
  assign and acceptByRestaurant requests leaves each stored order with the
  \<open>payoutAmount\<close> it had, and with every other field it had except \<open>status\<close> and
  \<open>driver\<close>; the driver changes only when an assign request is among them.
\<close>

theorem C9_payout_frame:
  assumes "wf_store s"
    and "map_of (inMemoryOrders s) k = Some x"
    and "\<forall>r \<in> set rs. mutating r"
  shows "\<exists>x'. map_of (inMemoryOrders (snd (run rs s))) k = Some x'
     \<and> payoutAmount x' = payoutAmount x
     \<and> x'\<lparr>status := status x, driver := driver x\<rparr> = x
     \<and> ((\<forall>r \<in> set rs. \<not> is_assign r) \<longrightarrow> driver x' = driver x)"
proof -
  from run_mutating [OF assms(1,3,2)]
  obtain x' where l: "map_of (inMemoryOrders (snd (run rs s))) k = Some x'"
    and e: "x'\<lparr>status := status x, driver := driver x\<rparr> = x"
    and d: "(\<forall>r \<in> set rs. \<not> is_assign r) \<longrightarrow> driver x' = driver x"
    by blast
  have "payoutAmount (x'\<lparr>status := status x, driver := driver x\<rparr>) = payoutAmount x'" by simp
  with e have "payoutAmount x' = payoutAmount x" by simp
  with l e d show ?thesis by blast
qed

theorem C9_payout_frame_witness:
  "wf_store demo_state
   \<and> map_of (inMemoryOrders demo_state) ''ORD-1010'' = Some demo_order
   \<and> mutating (PutOrderStatus ''ORD-1010'' (Str ''preparing''))
   \<and> mutating (PostAssign (Some demo_user) ''ORD-1010'')
   \<and> mutating (PostAcceptRestaurant ''ORD-1010'')
   \<and> (\<exists>x'. map_of (inMemoryOrders (snd (run
          [PutOrderStatus ''ORD-1010'' (Str ''preparing''), PostAssign (Some demo_user) ''ORD-1010'',
           PostAcceptRestaurant ''ORD-1010''] demo_state))) ''ORD-1010'' = Some x'
        \<and> payoutAmount x' = Num 100)"
proof -
  let ?rs = "[PutOrderStatus ''ORD-1010'' (Str ''preparing''), PostAssign (Some demo_user) ''ORD-1010'',
           PostAcceptRestaurant ''ORD-1010'']"
  have a: "map_of (inMemoryOrders demo_state) ''ORD-1010'' = Some demo_order"
    by (simp add: demo_state_def)
  have m: "\<forall>r \<in> set ?rs. mutating r" by simp
  have p: "payoutAmount demo_order = Num 100" by (simp add: demo_order_def)
  from C9_payout_frame [OF wf_store_demo_state a m]
  have "\<exists>x'. map_of (inMemoryOrders (snd (run ?rs demo_state))) ''ORD-1010'' = Some x'
        \<and> payoutAmount x' = Num 100" unfolding p by blast
  with wf_store_demo_state a show ?thesis by simp
qed


subsection \<open>Identifiers\<close>

lemma digit_char_inj:
  assumes "a < 10" and "b < 10" and "digit_char a = digit_char b"
  shows "a = b"
proof -
  have d: "distinct ''0123456789''" by simp
  have l: "length ''0123456789'' = 10" by simp
  from assms(3) have "''0123456789'' ! a = ''0123456789'' ! b" by (simp only: digit_char_def)
  with d assms(1,2) l show "a = b" by (simp only: nth_eq_iff_index_eq)
qed

lemma decimal_nonempty: "decimal n \<noteq> []"
  by (subst decimal.simps) simp

lemma decimal_inj: "decimal n = decimal m \<Longrightarrow> n = m"
proof (induction n arbitrary: m rule: decimal.induct)
  case (1 n)
  show ?case
  proof (cases "n < 10")
    case n_small: True
    show ?thesis
    proof (cases "m < 10")
      case True
      from "1.prems" n_small True have "digit_char n = digit_char m"
        by (simp add: decimal.simps)
      with n_small True show ?thesis by (rule digit_char_inj)
    next
      case False
      from "1.prems" n_small False
      have "[digit_char n] = decimal (m div 10) @ [digit_char (m mod 10)]"
        by (simp add: decimal.simps [of n] decimal.simps [of m])
      then have "decimal (m div 10) = []" by simp
      with decimal_nonempty show ?thesis by blast
    qed
  next
    case n_large: False
    show ?thesis
    proof (cases "m < 10")
      case True
      from "1.prems" True n_large
      have "decimal (n div 10) @ [digit_char (n mod 10)] = [digit_char m]"
        by (simp add: decimal.simps [of n] decimal.simps [of m])
      then have "decimal (n div 10) = []" by simp
      with decimal_nonempty show ?thesis by blast
    next
      case False
      from "1.prems" n_large False
      have "decimal (n div 10) @ [digit_char (n mod 10)]
          = decimal (m div 10) @ [digit_char (m mod 10)]"
        by (simp add: decimal.simps [of n] decimal.simps [of m])
      then have hi: "decimal (n div 10) = decimal (m div 10)"
        and lo: "digit_char (n mod 10) = digit_char (m mod 10)" by simp_all
      from "1.IH" [OF n_large hi] have q: "n div 10 = m div 10" .
      have "n mod 10 = m mod 10" by (rule digit_char_inj [OF _ _ lo]) simp_all
      with q show ?thesis by (metis div_mult_mod_eq)
    qed
  qed
qed

lemma order_id_inj: "inj (\<lambda>n. ''ORD-'' @ decimal n)"
  by (rule injI) (simp add: decimal_inj)

text \<open>The counter never goes back, and a 201 reply carries the counter's value.\<close>

lemma post_orders_counter:
  "nextOrderNumericId s \<le> nextOrderNumericId (snd (post_orders u now b s))"
  by (simp add: post_orders_def generateOrderId_def broadcastOrderEvent_delivered Let_def
      split: option.splits sum.splits)

lemma post_orders_Json201:
  assumes "fst (post_orders u now b s) = Json201 x"
  shows "order_id x = ''ORD-'' @ decimal (nextOrderNumericId s)
     \<and> nextOrderNumericId (snd (post_orders u now b s)) = nextOrderNumericId s + 1"
proof (cases "validationResult_create b = []")
  case False
  with assms show ?thesis by (simp add: post_orders_def)
next
  case True
  show ?thesis
  proof (cases "body_items b")
    case None
    with True assms show ?thesis by (simp add: post_orders_def generateOrderId_def)
  next
    case (Some its)
    show ?thesis
    proof (cases "payout its")
      case (Inl e)
      with True Some assms show ?thesis by (simp add: post_orders_def generateOrderId_def)
    next
      case (Inr p)
      from post_orders_created [OF True Some Inr, of u now s]
      obtain x' s' where r: "post_orders u now b s = (Json201 x', s')"
        and i: "order_id x' = ''ORD-'' @ decimal (nextOrderNumericId s)"
        and n: "nextOrderNumericId s' = nextOrderNumericId s + 1"
        by blast
      from r assms have "x' = x" by simp
      with r i n show ?thesis by simp
    qed
  qed
qed

lemma handle_counter: "nextOrderNumericId s \<le> nextOrderNumericId (snd (handle r s))"
  by (cases r)
    (simp_all add: post_orders_counter get_orders_def get_order_def get_available_list_def
      put_order_status_def post_assign_def post_accept_restaurant_def
      broadcastOrderEvent_delivered set_mutated_def Let_def split: option.splits)

lemma handle_Json201:
  assumes "fst (handle r s) = Json201 x"
  shows "order_id x = ''ORD-'' @ decimal (nextOrderNumericId s)
     \<and> nextOrderNumericId (snd (handle r s)) = nextOrderNumericId s + 1"
proof (cases r)
  case (PostOrders u now b)
  with assms show ?thesis by (simp add: post_orders_Json201)
qed (use assms in \<open>simp_all add: get_orders_def get_order_def get_available_list_def
      put_order_status_def post_assign_def post_accept_restaurant_def
      broadcastOrderEvent_delivered set_mutated_def Let_def split: option.splits if_splits\<close>)

lemma created_ids_Cons:
  "created_ids (a # as) =
     (case a of Json201 x \<Rightarrow> order_id x # created_ids as | _ \<Rightarrow> created_ids as)"
  by (cases a) simp_all

lemma run_created:
  "\<exists>ns. created_ids (fst (run rs s)) = map (\<lambda>n. ''ORD-'' @ decimal n) ns
     \<and> sorted_wrt (<) ns
     \<and> (\<forall>n \<in> set ns. nextOrderNumericId s \<le> n)
     \<and> nextOrderNumericId s \<le> nextOrderNumericId (snd (run rs s))"
proof (induction rs arbitrary: s)
  case Nil
  have "created_ids (fst (run [] s)) = map (\<lambda>n. ''ORD-'' @ decimal n) []" by simp
  then show ?case by fastforce
next
  case (Cons r rs)
  let ?s1 = "snd (handle r s)"
  from Cons.IH [of ?s1]
  obtain ns where ids: "created_ids (fst (run rs ?s1)) = map (\<lambda>n. ''ORD-'' @ decimal n) ns"
    and srt: "sorted_wrt (<) ns"
    and low: "\<forall>n \<in> set ns. nextOrderNumericId ?s1 \<le> n"
    and mono: "nextOrderNumericId ?s1 \<le> nextOrderNumericId (snd (run rs ?s1))"
    by blast
  have step: "nextOrderNumericId s \<le> nextOrderNumericId ?s1" by (rule handle_counter)
  have up: "nextOrderNumericId s \<le> nextOrderNumericId (snd (run (r # rs) s))"
    using step mono by (simp only: snd_run_Cons)
  show ?case
  proof (cases "\<exists>x. fst (handle r s) = Json201 x")
    case True
    then obtain x where x: "fst (handle r s) = Json201 x" ..
    from handle_Json201 [OF x]
    have oid: "order_id x = ''ORD-'' @ decimal (nextOrderNumericId s)"
      and nxt: "nextOrderNumericId ?s1 = nextOrderNumericId s + 1" by simp_all
    let ?ns = "nextOrderNumericId s # ns"
    have "created_ids (fst (run (r # rs) s)) = map (\<lambda>n. ''ORD-'' @ decimal n) ?ns"
      by (simp only: fst_run_Cons x created_ids.simps ids oid list.map)
    moreover have "sorted_wrt (<) ?ns" using srt low nxt by auto
    moreover have "\<forall>n \<in> set ?ns. nextOrderNumericId s \<le> n" using low nxt by auto
    ultimately show ?thesis using up by blast
  next
    case False
    then have "created_ids (fst (run (r # rs) s)) = created_ids (fst (run rs ?s1))"
      by (simp only: fst_run_Cons created_ids_Cons) (simp split: reply.splits)
    moreover have "\<forall>n \<in> set ns. nextOrderNumericId s \<le> n" using low step by auto
    ultimately show ?thesis using ids srt up by auto
  qed
qed

subsection \<open>Claim on the identifiers of created orders\<close>

text \<open>
  C8. Whatever requests the server has handled since it started, the identifiers of the
  orders it created are \<open>ORD-\<close> followed by the decimal form of numbers that strictly
  increase from one creation to the next and are at least the seed 1010, so above every
  number below the seed; the identifiers are pairwise distinct.
\<close>

theorem C8_distinct_ids:
  "\<exists>ns. created_ids (fst (run rs initial_state)) = map (\<lambda>n. ''ORD-'' @ decimal n) ns
     \<and> sorted_wrt (<) ns
     \<and> (\<forall>n \<in> set ns. 1010 \<le> n)
     \<and> distinct (created_ids (fst (run rs initial_state)))"
proof -
  from run_created [of rs initial_state]
  obtain ns where ids: "created_ids (fst (run rs initial_state)) = map (\<lambda>n. ''ORD-'' @ decimal n) ns"
    and srt: "sorted_wrt (<) ns"
    and low: "\<forall>n \<in> set ns. nextOrderNumericId initial_state \<le> n"
    by blast
  from low have l: "\<forall>n \<in> set ns. 1010 \<le> n" by (simp add: initial_state_def)
  from srt have "distinct ns" by (simp add: strict_sorted_iff)
  then have "distinct (map (\<lambda>n. ''ORD-'' @ decimal n) ns)"
    using order_id_inj by (simp add: distinct_map inj_on_def inj_def)
  with ids have "distinct (created_ids (fst (run rs initial_state)))" by simp
  with ids srt l show ?thesis by blast
qed

theorem C8_distinct_ids_witness:
  "created_ids (fst (run
      [PostOrders None ''t0'' demo_body,
       PostOrders None ''t1'' (demo_body\<lparr>body_items := Some [Nullish]\<rparr>),
       PostOrders None ''t2'' demo_body] initial_state)) = [''ORD-1010'', ''ORD-1012'']
   \<and> distinct (created_ids (fst (run
      [PostOrders None ''t0'' demo_body,
       PostOrders None ''t1'' (demo_body\<lparr>body_items := Some [Nullish]\<rparr>),
       PostOrders None ''t2'' demo_body] initial_state)))"
proof -
  let ?rs = "[PostOrders None ''t0'' demo_body,
       PostOrders None ''t1'' (demo_body\<lparr>body_items := Some [Nullish]\<rparr>),
       PostOrders None ''t2'' demo_body]"
  have e: "created_ids (fst (run ?rs initial_state)) = [''ORD-1010'', ''ORD-1012'']"
    by (simp add: initial_state_def demo_body_def post_orders_def validationResult_create_def
      items_isArray_min1_def address_notEmpty_def str_truthy_def generateOrderId_def
      decimal.simps digit_char_def payout_demo payout_Nullish broadcastOrderEvent_delivered
      Let_def)
  from C8_distinct_ids [of ?rs]
  have "distinct (created_ids (fst (run ?rs initial_state)))" by (elim exE conjE)
  with e show ?thesis by (rule conjI)
qed

end
